theory Spec2Isabelle
  imports Main "HOL-Library.Multiset" "HOL-Library.Sublist"
begin

section \<open>The rotation page: data model\<close>

text \<open>
  The page component \<open>Home\<close> of the football rotation front end keeps three pieces of
  React state: the team-count input \<open>totalTeams\<close> (a number, or the empty string),
  the session \<open>gameState\<close> (or null) and the error banner \<open>error\<close> (or null).
  Every handler of the component is modelled as a function from the page state to the
  page state. Numbers are integers: the input is filled by \<open>parseInt\<close> and the
  handlers only add and subtract one.
\<close>

datatype MatchResult = team1_win | team2_win | draw

text \<open>
  \<open>Match\<close>, \<open>DrawTracker\<close> and the \<open>current_match\<close> object all carry the
  fields \<open>team1\<close> and \<open>team2\<close>; the common part is the record \<open>Pairing\<close>, which
  the other two extend. The field \<open>result\<close> of a \<open>Match\<close> is optional in the
  interface, hence an option.
\<close>

record Pairing =
  team1 :: int
  team2 :: int

record Match = Pairing +
  match_number :: int
  result :: "MatchResult option"

record DrawTracker = Pairing +
  nextToPlay :: int

record GameState =
  total_teams :: int
  current_match :: "Pairing option"
  waiting_queue :: "int list"
  match_history :: "Match list"
  match_counter :: int
  draw_trackers :: "DrawTracker list"

record Home =
  totalTeams :: "int option"
  gameState :: "GameState option"
  error :: "string option"

section \<open>The handlers\<close>

text \<open>
  The expression \<open>totalTeams === '' ? 3 : totalTeams\<close>, which \<open>incrementTeams\<close>,
  \<open>decrementTeams\<close> and \<open>startNewGame\<close> all start with.
\<close>

definition teamsOr3 :: "int option \<Rightarrow> int" where
  "teamsOr3 t = (case t of None \<Rightarrow> 3 | Some n \<Rightarrow> n)"

definition incrementTeams :: "Home \<Rightarrow> Home" where
  "incrementTeams p =
     (let current = teamsOr3 (totalTeams p)
      in if current < 20 then p\<lparr>totalTeams := Some (current + 1)\<rparr> else p)"

definition decrementTeams :: "Home \<Rightarrow> Home" where
  "decrementTeams p =
     (let current = teamsOr3 (totalTeams p)
      in if current > 3 then p\<lparr>totalTeams := Some (current - 1)\<rparr> else p)"

text \<open>\<open>Array.from({ length: teams }, (_, i) => i + 1)\<close>\<close>

definition initialQueue :: "int \<Rightarrow> int list" where
  "initialQueue teams = map (\<lambda>i. int i + 1) [0..<nat teams]"

definition initialState :: "int \<Rightarrow> GameState" where
  "initialState teams =
     \<lparr>total_teams = teams,
      current_match = None,
      waiting_queue = initialQueue teams,
      match_history = [],
      match_counter = 0,
      draw_trackers = []\<rparr>"

definition startNewGame :: "Home \<Rightarrow> Home" where
  "startNewGame p =
     (let teams = teamsOr3 (totalTeams p)
      in if teams < 3 \<or> teams > 20
         then p\<lparr>error := Some ''Please enter between 3 and 20 teams''\<rparr>
         else p\<lparr>gameState := Some (initialState teams), error := None\<rparr>)"

text \<open>
  \<open>getNextMatch\<close> returns at once without a session, and tests the length of the
  queue before it destructures \<open>[team1, team2, ...remainingQueue]\<close>, so the last
  case below is never taken. It does not look at \<open>current_match\<close>.
\<close>

definition getNextMatch :: "Home \<Rightarrow> Home" where
  "getNextMatch p =
     (case gameState p of
        None \<Rightarrow> p
      | Some g \<Rightarrow>
          if length (waiting_queue g) < 2
          then p\<lparr>error := Some ''Not enough teams in queue to start a match''\<rparr>
          else (case waiting_queue g of
                  t1 # t2 # remainingQueue \<Rightarrow>
                    p\<lparr>gameState := Some (g\<lparr>current_match := Some \<lparr>team1 = t1, team2 = t2\<rparr>,
                                           waiting_queue := remainingQueue\<rparr>),
                      error := None\<rparr>
                | _ \<Rightarrow> p))"

text \<open>\<open>Array.prototype.findIndex\<close>; the result \<open>-1\<close> is \<open>None\<close>.\<close>

fun findIndex :: "('a \<Rightarrow> bool) \<Rightarrow> 'a list \<Rightarrow> nat option" where
  "findIndex P [] = None"
| "findIndex P (x # xs) = (if P x then Some 0 else map_option Suc (findIndex P xs))"

text \<open>
  The callback that \<open>handleDrawTeamSelection\<close> hands to \<open>findIndex\<close>: the
  tracker \<open>dt\<close> is the one of the two teams, in either order.
\<close>

definition forPair :: "int \<Rightarrow> int \<Rightarrow> DrawTracker \<Rightarrow> bool" where
  "forPair t1 t2 dt = ((team1 dt = t1 \<and> team2 dt = t2) \<or> (team1 dt = t2 \<and> team2 dt = t1))"

text \<open>
  \<open>handleDrawTeamSelection\<close> reads the \<open>gameState\<close> of the closure and mutates its
  \<open>draw_trackers\<close> array in place (a \<open>push\<close>, or an assignment to
  \<open>tracker.nextToPlay\<close>). The model takes that object and returns the team to play
  first together with the object after the mutation.
\<close>

definition handleDrawTeamSelection ::
  "GameState option \<Rightarrow> int \<Rightarrow> int \<Rightarrow> int \<times> GameState option" where
  "handleDrawTeamSelection gs t1 t2 =
     (case gs of
        None \<Rightarrow> (t1, None)
      | Some g \<Rightarrow>
          (case findIndex (forPair t1 t2) (draw_trackers g) of
             None \<Rightarrow>
               (let lowerTeam = min t1 t2;
                    higherTeam = max t1 t2
                in (lowerTeam,
                    Some (g\<lparr>draw_trackers := draw_trackers g @
                              [\<lparr>team1 = lowerTeam, team2 = higherTeam,
                                nextToPlay = higherTeam\<rparr>]\<rparr>)))
           | Some trackerIndex \<Rightarrow>
               (let tracker = draw_trackers g ! trackerIndex;
                    teamToPlay = nextToPlay tracker
                in (teamToPlay,
                    Some (g\<lparr>draw_trackers := (draw_trackers g)
                              [trackerIndex := tracker\<lparr>nextToPlay :=
                                 (if nextToPlay tracker = team1 tracker
                                  then team2 tracker else team1 tracker)\<rparr>]\<rparr>)))))"

text \<open>
  \<open>recordResult\<close> returns at once without a session or without a current match.
  Otherwise it builds the new queue, in the draw case after the call of
  \<open>handleDrawTeamSelection\<close> has mutated the session object, and then stores a copy of
  that object with four fields replaced. The object that comes back from
  \<open>handleDrawTeamSelection\<close> is the one handed in, never null, so the \<open>None\<close>
  case of \<open>gs'\<close> is never taken.
\<close>

definition recordResult :: "MatchResult \<Rightarrow> Home \<Rightarrow> Home" where
  "recordResult res p =
     (case gameState p of
        None \<Rightarrow> p
      | Some g \<Rightarrow>
          (case current_match g of
             None \<Rightarrow> p
           | Some cm \<Rightarrow>
               (let t1 = team1 cm;
                    t2 = team2 cm;
                    newMatchNumber = match_counter g + 1;
                    match = \<lparr>team1 = t1, team2 = t2,
                             match_number = newMatchNumber, result = Some res\<rparr>;
                    (newQueue, g') =
                      (case res of
                         team1_win \<Rightarrow> ([t1] @ waiting_queue g @ [t2], g)
                       | team2_win \<Rightarrow> ([t2] @ waiting_queue g @ [t1], g)
                       | draw \<Rightarrow>
                           (let (firstToPlay, gs') = handleDrawTeamSelection (Some g) t1 t2;
                                secondToPlay = (if firstToPlay = t1 then t2 else t1)
                            in (waiting_queue g @ [firstToPlay, secondToPlay],
                                (case gs' of Some m \<Rightarrow> m | None \<Rightarrow> g))))
                in p\<lparr>gameState := Some (g'\<lparr>current_match := None,
                                            waiting_queue := newQueue,
                                            match_history := match_history g' @ [match],
                                            match_counter := newMatchNumber\<rparr>),
                     error := None\<rparr>)))"

definition endSession :: "Home \<Rightarrow> Home" where
  "endSession p = p\<lparr>gameState := None, error := None\<rparr>"

section \<open>Runs of the page\<close>

text \<open>
  A run is a sequence of clicks on the match buttons: \<open>Get Next Match\<close>, or one of
  the three result buttons.
\<close>

datatype event = GetNextMatch | RecordResult MatchResult

fun step :: "Home \<Rightarrow> event \<Rightarrow> Home" where
  "step p GetNextMatch = getNextMatch p"
| "step p (RecordResult r) = recordResult r p"

fun run :: "Home \<Rightarrow> event list \<Rightarrow> Home" where
  "run p [] = p"
| "run p (e # es) = run (step p e) es"

text \<open>The teams on the pitch: the two teams of the current match, if there is one.\<close>

definition onPitch :: "GameState \<Rightarrow> int list" where
  "onPitch g = (case current_match g of None \<Rightarrow> [] | Some cm \<Rightarrow> [team1 cm, team2 cm])"

text \<open>
  The page renders the \<open>Get Next Match\<close> button only in the branch of
  \<open>gameState.current_match ? ... : ...\<close> where no match is in progress. A run is
  \<open>gated\<close> when each of its \<open>getNextMatch\<close> calls happens in such a state.
\<close>

definition matchInProgress :: "Home \<Rightarrow> bool" where
  "matchInProgress p =
     (case gameState p of None \<Rightarrow> False | Some g \<Rightarrow> current_match g \<noteq> None)"

fun gated :: "Home \<Rightarrow> event list \<Rightarrow> bool" where
  "gated p [] = True"
| "gated p (e # es) =
     ((e = GetNextMatch \<longrightarrow> \<not> matchInProgress p) \<and> gated (step p e) es)"

text \<open>The current match is between \<open>a\<close> and \<open>b\<close>, in either order.\<close>

definition playingPair :: "int \<Rightarrow> int \<Rightarrow> Home \<Rightarrow> bool" where
  "playingPair a b p =
     (case gameState p of
        None \<Rightarrow> False
      | Some g \<Rightarrow>
          (case current_match g of
             None \<Rightarrow> False
           | Some cm \<Rightarrow> (team1 cm = a \<and> team2 cm = b) \<or> (team1 cm = b \<and> team2 cm = a)))"

text \<open>
  The team scheduled to play first when the current match is recorded as a draw: of
  the two entries that \<open>recordResult\<close> puts at the back of the queue, the front one.
\<close>

definition scheduledFirst :: "Home \<Rightarrow> int option" where
  "scheduledFirst p =
     (case gameState p of
        None \<Rightarrow> None
      | Some g \<Rightarrow>
          (case gameState (recordResult draw p) of
             None \<Rightarrow> None
           | Some g' \<Rightarrow>
               (case drop (length (waiting_queue g)) (waiting_queue g') of
                  [] \<Rightarrow> None
                | f # _ \<Rightarrow> Some f)))"

text \<open>
  Along a run, the draws recorded for the pair of \<open>a\<close> and \<open>b\<close>: how many there
  are, and which team each of them scheduled first.
\<close>

fun drawCount :: "int \<Rightarrow> int \<Rightarrow> Home \<Rightarrow> event list \<Rightarrow> nat" where
  "drawCount a b p [] = 0"
| "drawCount a b p (e # es) =
     (if e = RecordResult draw \<and> playingPair a b p then 1 else 0)
       + drawCount a b (step p e) es"

fun drawFirsts :: "int \<Rightarrow> int \<Rightarrow> Home \<Rightarrow> event list \<Rightarrow> int option list" where
  "drawFirsts a b p [] = []"
| "drawFirsts a b p (e # es) =
     (if e = RecordResult draw \<and> playingPair a b p then [scheduledFirst p] else [])
       @ drawFirsts a b (step p e) es"

text \<open>The key of a tracker: its two stored team ids.\<close>

definition trackerKey :: "DrawTracker \<Rightarrow> int \<times> int" where
  "trackerKey dt = (team1 dt, team2 dt)"

text \<open>The teams a page accounts for: the queue followed by the teams on the pitch.\<close>

definition teamsPresent :: "Home \<Rightarrow> int list" where
  "teamsPresent p =
     (case gameState p of None \<Rightarrow> [] | Some g \<Rightarrow> waiting_queue g @ onPitch g)"

text \<open>The page as \<open>useState\<close> initialises it.\<close>

definition initialHome :: Home where
  "initialHome = \<lparr>totalTeams = Some 8, gameState = None, error = None\<rparr>"

section \<open>Invariants of a session\<close>

definition trackersOk :: "int \<Rightarrow> DrawTracker list \<Rightarrow> bool" where
  "trackersOk n ts =
     ((\<forall>t\<in>set ts. 1 \<le> team1 t \<and> team1 t < team2 t \<and> team2 t \<le> n \<and>
                   (nextToPlay t = team1 t \<or> nextToPlay t = team2 t)) \<and>
      distinct (map trackerKey ts))"

definition historyOk :: "GameState \<Rightarrow> bool" where
  "historyOk g =
     (int (length (match_history g)) = match_counter g \<and>
      map match_number (match_history g) = [1..match_counter g])"

definition sessionOk :: "int \<Rightarrow> GameState \<Rightarrow> bool" where
  "sessionOk n g =
     (total_teams g = n \<and>
      distinct (waiting_queue g @ onPitch g) \<and>
      set (waiting_queue g @ onPitch g) \<subseteq> {1..n} \<and>
      trackersOk n (draw_trackers g) \<and>
      historyOk g)"

section \<open>Lists and runs\<close>


lemma initialQueue_nat: "map (\<lambda>i. int i + 1) [0..<k] = [1..int k]"
proof (induction k)
  case 0
  show ?case by simp
next
  case (Suc k)
  have "[1..int (Suc k)] = [1..int k] @ [int k + 1]"
    by (simp add: upto_rec2)
  with Suc show ?case by simp
qed

lemma initialQueue_upto: "initialQueue n = [1..n]"
proof (cases "0 \<le> n")
  case True
  then show ?thesis
    unfolding initialQueue_def using initialQueue_nat [of "nat n"] by simp
next
  case False
  then show ?thesis by (simp add: initialQueue_def)
qed

lemma findIndex_None_iff: "findIndex P xs = None \<longleftrightarrow> (\<forall>x\<in>set xs. \<not> P x)"
  by (induction xs) auto

lemma findIndex_Some: "findIndex P xs = Some i \<Longrightarrow> i < length xs \<and> P (xs ! i)"
  by (induction xs arbitrary: i) (auto split: if_splits)

lemma filter_update_other:
  "i < length xs \<Longrightarrow> \<not> Q (xs ! i) \<Longrightarrow> \<not> Q y \<Longrightarrow> filter Q (xs[i := y]) = filter Q xs"
proof (induction xs arbitrary: i)
  case Nil
  then show ?case by simp
next
  case (Cons x xs)
  then show ?case by (cases i) auto
qed

lemma findIndex_filter_single:
  "findIndex P xs = Some i \<Longrightarrow> filter P xs = [t] \<Longrightarrow>
     xs ! i = t \<and> (P y \<longrightarrow> filter P (xs[i := y]) = [y])"
proof (induction xs arbitrary: i)
  case Nil
  then show ?case by simp
next
  case (Cons x xs)
  show ?case
  proof (cases "P x")
    case True
    with Cons.prems show ?thesis by auto
  next
    case False
    with Cons.prems obtain j where j: "findIndex P xs = Some j" "i = Suc j"
      by auto
    with Cons.prems False Cons.IH [of j] show ?thesis by simp
  qed
qed

lemma filter_key_le1: "distinct (map f xs) \<Longrightarrow> length (filter (\<lambda>x. f x = k) xs) \<le> 1"
  by (induction xs) (auto simp: filter_empty_conv image_iff)

lemma run_append: "run p (es @ fs) = run (run p es) fs"
  by (induction es arbitrary: p) auto

lemma gated_append: "gated p (es @ fs) = (gated p es \<and> gated (run p es) fs)"
  by (induction es arbitrary: p) auto

lemma drawCount_append:
  "drawCount a b p (es @ fs) = drawCount a b p es + drawCount a b (run p es) fs"
  by (induction es arbitrary: p) auto

lemma drawFirsts_append:
  "drawFirsts a b p (es @ fs) = drawFirsts a b p es @ drawFirsts a b (run p es) fs"
  by (induction es arbitrary: p) auto

section \<open>What each handler returns\<close>

lemma getNextMatch_short:
  "gameState p = Some g \<Longrightarrow> length (waiting_queue g) < 2 \<Longrightarrow>
     getNextMatch p = p\<lparr>error := Some ''Not enough teams in queue to start a match''\<rparr>"
  by (simp add: getNextMatch_def)

lemma getNextMatch_draws:
  "gameState p = Some g \<Longrightarrow> waiting_queue g = t1 # t2 # rq \<Longrightarrow>
     getNextMatch p =
       p\<lparr>gameState := Some (g\<lparr>current_match := Some \<lparr>team1 = t1, team2 = t2\<rparr>,
                              waiting_queue := rq\<rparr>),
         error := None\<rparr>"
  by (simp add: getNextMatch_def)

lemma recordResult_idle:
  "gameState p = Some g \<Longrightarrow> current_match g = None \<Longrightarrow> recordResult r p = p"
  by (simp add: recordResult_def)

lemma recordResult_team1_win:
  "gameState p = Some g \<Longrightarrow> current_match g = Some cm \<Longrightarrow>
     recordResult team1_win p =
       p\<lparr>gameState := Some (g\<lparr>current_match := None,
                              waiting_queue := team1 cm # waiting_queue g @ [team2 cm],
                              match_history := match_history g @
                                [\<lparr>team1 = team1 cm, team2 = team2 cm,
                                  match_number = match_counter g + 1,
                                  result = Some team1_win\<rparr>],
                              match_counter := match_counter g + 1\<rparr>),
         error := None\<rparr>"
  by (simp add: recordResult_def Let_def)

lemma recordResult_team2_win:
  "gameState p = Some g \<Longrightarrow> current_match g = Some cm \<Longrightarrow>
     recordResult team2_win p =
       p\<lparr>gameState := Some (g\<lparr>current_match := None,
                              waiting_queue := team2 cm # waiting_queue g @ [team1 cm],
                              match_history := match_history g @
                                [\<lparr>team1 = team1 cm, team2 = team2 cm,
                                  match_number = match_counter g + 1,
                                  result = Some team2_win\<rparr>],
                              match_counter := match_counter g + 1\<rparr>),
         error := None\<rparr>"
  by (simp add: recordResult_def Let_def)

lemma recordResult_draw_new:
  "gameState p = Some g \<Longrightarrow> current_match g = Some cm \<Longrightarrow>
   findIndex (forPair (team1 cm) (team2 cm)) (draw_trackers g) = None \<Longrightarrow>
     recordResult draw p =
       p\<lparr>gameState := Some (g\<lparr>current_match := None,
                              waiting_queue := waiting_queue g @
                                [min (team1 cm) (team2 cm),
                                 (if min (team1 cm) (team2 cm) = team1 cm
                                  then team2 cm else team1 cm)],
                              match_history := match_history g @
                                [\<lparr>team1 = team1 cm, team2 = team2 cm,
                                  match_number = match_counter g + 1,
                                  result = Some draw\<rparr>],
                              match_counter := match_counter g + 1,
                              draw_trackers := draw_trackers g @
                                [\<lparr>team1 = min (team1 cm) (team2 cm),
                                  team2 = max (team1 cm) (team2 cm),
                                  nextToPlay = max (team1 cm) (team2 cm)\<rparr>]\<rparr>),
         error := None\<rparr>"
  by (simp add: recordResult_def handleDrawTeamSelection_def Let_def)

lemma recordResult_draw_old:
  "gameState p = Some g \<Longrightarrow> current_match g = Some cm \<Longrightarrow>
   findIndex (forPair (team1 cm) (team2 cm)) (draw_trackers g) = Some i \<Longrightarrow>
   draw_trackers g ! i = tr \<Longrightarrow>
     recordResult draw p =
       p\<lparr>gameState := Some (g\<lparr>current_match := None,
                              waiting_queue := waiting_queue g @
                                [nextToPlay tr,
                                 (if nextToPlay tr = team1 cm then team2 cm else team1 cm)],
                              match_history := match_history g @
                                [\<lparr>team1 = team1 cm, team2 = team2 cm,
                                  match_number = match_counter g + 1,
                                  result = Some draw\<rparr>],
                              match_counter := match_counter g + 1,
                              draw_trackers := (draw_trackers g)
                                [i := tr\<lparr>nextToPlay :=
                                   (if nextToPlay tr = team1 tr then team2 tr else team1 tr)\<rparr>]\<rparr>),
         error := None\<rparr>"
  by (simp add: recordResult_def handleDrawTeamSelection_def Let_def)

section \<open>The invariants are kept\<close>


lemma trackersOk_push:
  assumes ok: "trackersOk n ts"
    and none: "findIndex (forPair t1 t2) ts = None"
    and range: "1 \<le> t1" "1 \<le> t2" "t1 \<le> n" "t2 \<le> n" "t1 \<noteq> t2"
  shows "trackersOk n (ts @ [\<lparr>team1 = min t1 t2, team2 = max t1 t2, nextToPlay = max t1 t2\<rparr>])"
proof -
  from none have "\<forall>t\<in>set ts. \<not> forPair t1 t2 t"
    by (simp add: findIndex_None_iff)
  then have "(min t1 t2, max t1 t2) \<notin> trackerKey ` set ts"
    by (auto simp: forPair_def trackerKey_def min_def max_def split: if_splits)
  with ok range show ?thesis
    by (auto simp: trackersOk_def trackerKey_def)
qed

lemma trackersOk_toggle:
  assumes ok: "trackersOk n ts" and i: "i < length ts"
  shows "trackersOk n (ts[i := (ts ! i)\<lparr>nextToPlay :=
           (if nextToPlay (ts ! i) = team1 (ts ! i) then team2 (ts ! i) else team1 (ts ! i))\<rparr>])"
    (is "trackersOk n (ts[i := ?y])")
proof -
  have key: "map trackerKey (ts[i := ?y]) = map trackerKey ts"
    using i by (simp add: map_update trackerKey_def list_update_same_conv)
  have mem: "ts ! i \<in> set ts"
    using i by simp
  have "\<forall>t\<in>set (ts[i := ?y]). 1 \<le> team1 t \<and> team1 t < team2 t \<and> team2 t \<le> n \<and>
          (nextToPlay t = team1 t \<or> nextToPlay t = team2 t)"
  proof
    fix t assume "t \<in> set (ts[i := ?y])"
    then have "t = ?y \<or> t \<in> set ts"
      using set_update_subset_insert [of ts i ?y] by auto
    with ok mem show "1 \<le> team1 t \<and> team1 t < team2 t \<and> team2 t \<le> n \<and>
          (nextToPlay t = team1 t \<or> nextToPlay t = team2 t)"
      by (auto simp: trackersOk_def)
  qed
  with ok key show ?thesis
    by (simp add: trackersOk_def)
qed

lemma historyOk_append:
  assumes "historyOk g"
  shows "int (length (match_history g @ [m\<lparr>match_number := match_counter g + 1\<rparr>])) = match_counter g + 1
       \<and> map match_number (match_history g @ [m\<lparr>match_number := match_counter g + 1\<rparr>]) = [1..match_counter g + 1]"
proof -
  from assms have c: "0 \<le> match_counter g"
    by (auto simp: historyOk_def)
  then have "[1..match_counter g + 1] = [1..match_counter g] @ [match_counter g + 1]"
    by (simp add: upto_rec2)
  with assms show ?thesis
    by (auto simp: historyOk_def)
qed


lemma sessionOk_initial: "sessionOk n (initialState n)"
  by (simp add: sessionOk_def initialState_def initialQueue_upto onPitch_def
      trackersOk_def historyOk_def)

lemma sessionOk_getNextMatch:
  assumes g: "gameState p = Some g" and ok: "sessionOk n g"
  shows "\<exists>g'. gameState (getNextMatch p) = Some g' \<and> sessionOk n g'"
proof (cases "length (waiting_queue g) < 2")
  case True
  with g ok show ?thesis by (simp add: getNextMatch_short)
next
  case False
  then obtain t1 t2 rq where q: "waiting_queue g = t1 # t2 # rq"
    by (cases "waiting_queue g"; cases "tl (waiting_queue g)") auto
  from ok q have "sessionOk n (g\<lparr>current_match := Some \<lparr>team1 = t1, team2 = t2\<rparr>,
                                  waiting_queue := rq\<rparr>)"
    by (auto simp: sessionOk_def onPitch_def historyOk_def)
  with g q show ?thesis by (simp add: getNextMatch_draws)
qed

lemma sessionOk_recordResult:
  assumes g: "gameState p = Some g" and ok: "sessionOk n g"
  shows "\<exists>g'. gameState (recordResult r p) = Some g' \<and> sessionOk n g'"
proof (cases "current_match g")
  case None
  with g ok show ?thesis by (simp add: recordResult_idle)
next
  case (Some cm)
  let ?m = "\<lparr>team1 = team1 cm, team2 = team2 cm, match_number = match_counter g + 1,
              result = Some r\<rparr>"
  from Some have pitch: "onPitch g = [team1 cm, team2 cm]"
    by (simp add: onPitch_def)
  with ok have teams: "team1 cm \<noteq> team2 cm" "1 \<le> team1 cm" "1 \<le> team2 cm"
      "team1 cm \<le> n" "team2 cm \<le> n"
      "team1 cm \<notin> set (waiting_queue g)" "team2 cm \<notin> set (waiting_queue g)"
      "distinct (waiting_queue g)" "set (waiting_queue g) \<subseteq> {1..n}"
    by (auto simp: sessionOk_def)
  from ok have tr: "trackersOk n (draw_trackers g)" and h: "historyOk g"
    and tt: "total_teams g = n"
    by (simp_all add: sessionOk_def)
  from historyOk_append [OF h, of ?m]
  have hist: "int (length (match_history g @ [?m])) = match_counter g + 1"
    "map match_number (match_history g @ [?m]) = [1..match_counter g + 1]"
    by simp_all
  show ?thesis
  proof (cases r)
    case team1_win
    from teams tr tt hist show ?thesis
      unfolding team1_win recordResult_team1_win [OF g Some]
      by (simp add: sessionOk_def onPitch_def historyOk_def)
  next
    case team2_win
    from teams tr tt hist show ?thesis
      unfolding team2_win recordResult_team2_win [OF g Some]
      by (simp add: sessionOk_def onPitch_def historyOk_def)
  next
    case draw
    show ?thesis
    proof (cases "findIndex (forPair (team1 cm) (team2 cm)) (draw_trackers g)")
      case None
      from trackersOk_push [OF tr None] teams
      have "trackersOk n (draw_trackers g @
              [\<lparr>team1 = min (team1 cm) (team2 cm), team2 = max (team1 cm) (team2 cm),
                nextToPlay = max (team1 cm) (team2 cm)\<rparr>])"
        by simp
      with teams tt hist show ?thesis
        unfolding draw recordResult_draw_new [OF g Some None]
        by (auto simp: sessionOk_def onPitch_def historyOk_def min_def)
    next
      case (Some i)
      from findIndex_Some [OF Some]
      have i: "i < length (draw_trackers g)"
        and fp: "forPair (team1 cm) (team2 cm) (draw_trackers g ! i)"
        by simp_all
      from i have "draw_trackers g ! i \<in> set (draw_trackers g)" by simp
      with tr have "nextToPlay (draw_trackers g ! i) = team1 (draw_trackers g ! i)
          \<or> nextToPlay (draw_trackers g ! i) = team2 (draw_trackers g ! i)"
        by (simp add: trackersOk_def)
      with fp have ntp: "nextToPlay (draw_trackers g ! i) = team1 cm
          \<or> nextToPlay (draw_trackers g ! i) = team2 cm"
        by (auto simp: forPair_def)
      note tog = trackersOk_toggle [OF tr i]
      from teams tt hist tog ntp show ?thesis
        unfolding draw recordResult_draw_old [OF g \<open>current_match g = Some cm\<close> Some refl]
        by (auto simp: sessionOk_def onPitch_def historyOk_def)
    qed
  qed
qed

lemma sessionOk_step:
  "gameState p = Some g \<Longrightarrow> sessionOk n g \<Longrightarrow>
     \<exists>g'. gameState (step p e) = Some g' \<and> sessionOk n g'"
  by (cases e) (simp_all add: sessionOk_getNextMatch sessionOk_recordResult)

lemma sessionOk_run:
  "gameState p = Some g \<Longrightarrow> sessionOk n g \<Longrightarrow>
     \<exists>g'. gameState (run p es) = Some g' \<and> sessionOk n g'"
proof (induction es arbitrary: p g)
  case Nil
  then show ?case by simp
next
  case (Cons e es)
  from sessionOk_step [OF Cons.prems, of e]
  obtain g1 where "gameState (step p e) = Some g1" "sessionOk n g1" by blast
  with Cons.IH [of "step p e" g1] show ?case by simp
qed

lemma startNewGame_valid:
  "3 \<le> teamsOr3 (totalTeams p0) \<Longrightarrow> teamsOr3 (totalTeams p0) \<le> 20 \<Longrightarrow>
     startNewGame p0 = p0\<lparr>gameState := Some (initialState (teamsOr3 (totalTeams p0))),
                          error := None\<rparr>"
  by (simp add: startNewGame_def Let_def)

lemma sessionOk_reachable:
  assumes "3 \<le> teamsOr3 (totalTeams p0)" "teamsOr3 (totalTeams p0) \<le> 20"
  shows "\<exists>g. gameState (run (startNewGame p0) es) = Some g
           \<and> sessionOk (teamsOr3 (totalTeams p0)) g"
proof -
  have "gameState (startNewGame p0) = Some (initialState (teamsOr3 (totalTeams p0)))"
    using assms by (simp add: startNewGame_valid)
  from sessionOk_run [OF this sessionOk_initial] show ?thesis .
qed

section \<open>Starting a game\<close>


text \<open>
  C7. \<open>startNewGame\<close> with a team count below 3 or above 20 sets the range message and
  leaves the rest of the page, the session included, as it was: no session is created.
  With a team count from 3 to 20 it stores a new session whose queue is
  \<open>[1, ..., total_teams]\<close> in ascending order, with an empty history, counter 0, no
  trackers and no current match, and it clears the error.
\<close>

theorem startNewGame_range:
  assumes "totalTeams p = Some n"
  shows "(n < 3 \<or> 20 < n \<longrightarrow>
            startNewGame p = p\<lparr>error := Some ''Please enter between 3 and 20 teams''\<rparr>) \<and>
         (3 \<le> n \<and> n \<le> 20 \<longrightarrow>
            startNewGame p =
              p\<lparr>gameState := Some \<lparr>total_teams = n, current_match = None,
                                     waiting_queue = [1..n], match_history = [],
                                     match_counter = 0, draw_trackers = []\<rparr>,
                error := None\<rparr>)"
  using assms
  by (auto simp: startNewGame_def teamsOr3_def initialState_def initialQueue_upto)

theorem startNewGame_range_witness:
  "totalTeams (initialHome\<lparr>totalTeams := Some 21\<rparr>) = Some 21 \<and> (20::int) < 21 \<and>
   startNewGame (initialHome\<lparr>totalTeams := Some 21\<rparr>) =
     \<lparr>totalTeams = Some 21, gameState = None,
      error = Some ''Please enter between 3 and 20 teams''\<rparr> \<and>
   totalTeams (initialHome\<lparr>totalTeams := Some 2\<rparr>) = Some 2 \<and> (2::int) < 3 \<and>
   startNewGame (initialHome\<lparr>totalTeams := Some 2\<rparr>) =
     \<lparr>totalTeams = Some 2, gameState = None,
      error = Some ''Please enter between 3 and 20 teams''\<rparr> \<and>
   totalTeams (initialHome\<lparr>totalTeams := Some 3\<rparr>) = Some 3 \<and> (3::int) \<le> 3 \<and> (3::int) \<le> 20 \<and>
   startNewGame (initialHome\<lparr>totalTeams := Some 3\<rparr>) =
     \<lparr>totalTeams = Some 3,
      gameState = Some \<lparr>total_teams = 3, current_match = None,
                         waiting_queue = [1, 2, 3], match_history = [],
                         match_counter = 0, draw_trackers = []\<rparr>,
      error = None\<rparr>"
  using startNewGame_range [of "initialHome\<lparr>totalTeams := Some 21\<rparr>" 21]
    startNewGame_range [of "initialHome\<lparr>totalTeams := Some 2\<rparr>" 2]
    startNewGame_range [of "initialHome\<lparr>totalTeams := Some 3\<rparr>" 3]
  by (simp add: initialHome_def upto_rec1)

text \<open>
  C10. With an empty team-count input, \<open>startNewGame\<close> reads the count as 3 and creates
  the session of three teams. \<open>incrementTeams\<close> reads the empty input as 3 too and sets
  the input to 4. \<open>decrementTeams\<close> reads it as 3, which is not above the lower bound,
  and leaves the input empty, which every handler goes on reading as 3. Starting from
  an empty input or one from 3 to 20, the count that the handlers read after either
  control is the old count moved by one and held within 3 and 20.
\<close>

theorem empty_input_counts_as_three:
  "(totalTeams p = None \<longrightarrow>
      startNewGame p =
        p\<lparr>gameState := Some \<lparr>total_teams = 3, current_match = None,
                               waiting_queue = [1, 2, 3], match_history = [],
                               match_counter = 0, draw_trackers = []\<rparr>,
          error := None\<rparr> \<and>
      incrementTeams p = p\<lparr>totalTeams := Some 4\<rparr> \<and>
      decrementTeams p = p \<and>
      teamsOr3 (totalTeams (decrementTeams p)) = 3) \<and>
   (totalTeams p = None \<or> 3 \<le> teamsOr3 (totalTeams p) \<and> teamsOr3 (totalTeams p) \<le> 20 \<longrightarrow>
      teamsOr3 (totalTeams (incrementTeams p)) = min 20 (teamsOr3 (totalTeams p) + 1) \<and>
      teamsOr3 (totalTeams (decrementTeams p)) = max 3 (teamsOr3 (totalTeams p) - 1))"
  by (auto simp: startNewGame_def incrementTeams_def decrementTeams_def teamsOr3_def
      initialState_def initialQueue_upto upto_rec1 Let_def)

theorem empty_input_counts_as_three_witness:
  "totalTeams (initialHome\<lparr>totalTeams := None\<rparr>) = None \<and>
   startNewGame (initialHome\<lparr>totalTeams := None\<rparr>) =
     \<lparr>totalTeams = None,
      gameState = Some \<lparr>total_teams = 3, current_match = None,
                         waiting_queue = [1, 2, 3], match_history = [],
                         match_counter = 0, draw_trackers = []\<rparr>,
      error = None\<rparr> \<and>
   incrementTeams (initialHome\<lparr>totalTeams := None\<rparr>) =
     \<lparr>totalTeams = Some 4, gameState = None, error = None\<rparr> \<and>
   decrementTeams (initialHome\<lparr>totalTeams := None\<rparr>) =
     \<lparr>totalTeams = None, gameState = None, error = None\<rparr>"
  using empty_input_counts_as_three [of "initialHome\<lparr>totalTeams := None\<rparr>"]
  by (simp add: initialHome_def)

text \<open>
  C5. When a match is in progress, recording \<open>team1_win\<close> puts team1 at the front of
  the waiting queue and team2 at its back, and recording \<open>team2_win\<close> puts team2 at the
  front and team1 at the back. A session of four teams whose first match, 1 against 2,
  is won by team1 has the queue \<open>[1, 3, 4, 2]\<close>.
\<close>

theorem winner_front_loser_back:
  "(gameState p = Some g \<and> current_match g = Some cm \<longrightarrow>
      map_option waiting_queue (gameState (recordResult team1_win p)) =
        Some ([team1 cm] @ waiting_queue g @ [team2 cm]) \<and>
      map_option waiting_queue (gameState (recordResult team2_win p)) =
        Some ([team2 cm] @ waiting_queue g @ [team1 cm])) \<and>
   map_option waiting_queue
     (gameState (run (startNewGame (initialHome\<lparr>totalTeams := Some 4\<rparr>))
        [GetNextMatch, RecordResult team1_win])) = Some [1, 3, 4, 2]"
proof -
  have "map_option waiting_queue
     (gameState (run (startNewGame (initialHome\<lparr>totalTeams := Some 4\<rparr>))
        [GetNextMatch, RecordResult team1_win])) = Some [1, 3, 4, 2]"
    by (simp add: initialHome_def startNewGame_def teamsOr3_def initialState_def
        initialQueue_upto upto_rec1 getNextMatch_def recordResult_def Let_def)
  then show ?thesis
    by (simp add: recordResult_team1_win recordResult_team2_win)
qed

theorem winner_front_loser_back_witness:
  "gameState (getNextMatch (startNewGame (initialHome\<lparr>totalTeams := Some 4\<rparr>))) =
     Some \<lparr>total_teams = 4, current_match = Some \<lparr>team1 = 1, team2 = 2\<rparr>,
           waiting_queue = [3, 4], match_history = [], match_counter = 0,
           draw_trackers = []\<rparr> \<and>
   map_option waiting_queue (gameState (recordResult team1_win
     (getNextMatch (startNewGame (initialHome\<lparr>totalTeams := Some 4\<rparr>))))) = Some [1, 3, 4, 2] \<and>
   map_option waiting_queue (gameState (recordResult team2_win
     (getNextMatch (startNewGame (initialHome\<lparr>totalTeams := Some 4\<rparr>))))) = Some [2, 3, 4, 1]"
proof -
  have g: "gameState (getNextMatch (startNewGame (initialHome\<lparr>totalTeams := Some 4\<rparr>))) =
     Some \<lparr>total_teams = 4, current_match = Some \<lparr>team1 = 1, team2 = 2\<rparr>,
           waiting_queue = [3, 4], match_history = [], match_counter = 0,
           draw_trackers = []\<rparr>"
    by (simp add: initialHome_def startNewGame_def teamsOr3_def initialState_def
        initialQueue_upto upto_rec1 getNextMatch_def)
  from g winner_front_loser_back
    [of "getNextMatch (startNewGame (initialHome\<lparr>totalTeams := Some 4\<rparr>))"
      "\<lparr>total_teams = 4, current_match = Some \<lparr>team1 = 1, team2 = 2\<rparr>,
           waiting_queue = [3, 4], match_history = [], match_counter = 0,
           draw_trackers = []\<rparr>" "\<lparr>team1 = 1, team2 = 2\<rparr>"]
  show ?thesis by simp
qed

section \<open>The match log\<close>


lemma recordResult_log:
  assumes g: "gameState p = Some g" and cm: "current_match g = Some cm"
  shows "\<exists>g'. gameState (recordResult r p) = Some g' \<and>
           match_history g' = match_history g @
             [\<lparr>team1 = team1 cm, team2 = team2 cm,
               match_number = match_counter g + 1, result = Some r\<rparr>] \<and>
           current_match g' = None \<and>
           match_counter g' = match_counter g + 1 \<and>
           total_teams g' = total_teams g"
proof (cases r)
  case team1_win
  show ?thesis unfolding team1_win recordResult_team1_win [OF g cm] by simp
next
  case team2_win
  show ?thesis unfolding team2_win recordResult_team2_win [OF g cm] by simp
next
  case draw
  show ?thesis
  proof (cases "findIndex (forPair (team1 cm) (team2 cm)) (draw_trackers g)")
    case None
    show ?thesis unfolding draw recordResult_draw_new [OF g cm None] by simp
  next
    case (Some i)
    show ?thesis unfolding draw recordResult_draw_old [OF g cm Some refl] by simp
  qed
qed

text \<open>
  C6. In every state that a new session reaches by \<open>getNextMatch\<close> and
  \<open>recordResult\<close> calls, the history is as long as \<open>match_counter\<close> says and its
  match numbers are 1, 2, ..., \<open>match_counter\<close> in this order. There, a
  \<open>recordResult\<close> with a match in progress appends one record, numbered
  \<open>match_counter + 1\<close>, with team1 and team2 as the current match has them and with
  the result given; it clears the current match and adds one to the counter.
\<close>

theorem history_matches_counter:
  assumes "3 \<le> teamsOr3 (totalTeams p0)" and "teamsOr3 (totalTeams p0) \<le> 20"
    and "p = run (startNewGame p0) es"
  shows "\<exists>g. gameState p = Some g \<and>
           int (length (match_history g)) = match_counter g \<and>
           map match_number (match_history g) = [1..match_counter g] \<and>
           (\<forall>cm. current_match g = Some cm \<longrightarrow>
              (\<exists>g'. gameState (recordResult r p) = Some g' \<and>
                 match_history g' = match_history g @
                   [\<lparr>team1 = team1 cm, team2 = team2 cm,
                     match_number = match_counter g + 1, result = Some r\<rparr>] \<and>
                 current_match g' = None \<and>
                 match_counter g' = match_counter g + 1))"
proof -
  from sessionOk_reachable [OF assms(1,2), of es] assms(3)
  obtain g where g: "gameState p = Some g" and ok: "sessionOk (teamsOr3 (totalTeams p0)) g"
    by auto
  from ok have "int (length (match_history g)) = match_counter g"
    and "map match_number (match_history g) = [1..match_counter g]"
    by (simp_all add: sessionOk_def historyOk_def)
  moreover have "\<forall>cm. current_match g = Some cm \<longrightarrow>
              (\<exists>g'. gameState (recordResult r p) = Some g' \<and>
                 match_history g' = match_history g @
                   [\<lparr>team1 = team1 cm, team2 = team2 cm,
                     match_number = match_counter g + 1, result = Some r\<rparr>] \<and>
                 current_match g' = None \<and>
                 match_counter g' = match_counter g + 1)"
    using recordResult_log [OF g] by blast
  ultimately show ?thesis using g by blast
qed

lemma run_example_4:
  "run (startNewGame (initialHome\<lparr>totalTeams := Some 4\<rparr>))
     [GetNextMatch, RecordResult draw, GetNextMatch] =
   \<lparr>totalTeams = Some 4,
    gameState = Some \<lparr>total_teams = 4, current_match = Some \<lparr>team1 = 3, team2 = 4\<rparr>,
                       waiting_queue = [1, 2],
                       match_history = [\<lparr>team1 = 1, team2 = 2, match_number = 1,
                                          result = Some draw\<rparr>],
                       match_counter = 1,
                       draw_trackers = [\<lparr>team1 = 1, team2 = 2, nextToPlay = 2\<rparr>]\<rparr>,
    error = None\<rparr>"
  by (simp add: initialHome_def startNewGame_def teamsOr3_def initialState_def
      initialQueue_upto upto_rec1 getNextMatch_def recordResult_def
      handleDrawTeamSelection_def forPair_def Let_def)

theorem history_matches_counter_witness:
  "(3::int) \<le> teamsOr3 (totalTeams (initialHome\<lparr>totalTeams := Some 4\<rparr>)) \<and>
   teamsOr3 (totalTeams (initialHome\<lparr>totalTeams := Some 4\<rparr>)) \<le> 20 \<and>
   map_option match_history (gameState (recordResult team2_win
     (run (startNewGame (initialHome\<lparr>totalTeams := Some 4\<rparr>))
        [GetNextMatch, RecordResult draw, GetNextMatch]))) =
     Some [\<lparr>team1 = 1, team2 = 2, match_number = 1, result = Some draw\<rparr>,
           \<lparr>team1 = 3, team2 = 4, match_number = 2, result = Some team2_win\<rparr>] \<and>
   map_option match_counter (gameState (recordResult team2_win
     (run (startNewGame (initialHome\<lparr>totalTeams := Some 4\<rparr>))
        [GetNextMatch, RecordResult draw, GetNextMatch]))) = Some 2"
proof -
  have h: "(3::int) \<le> teamsOr3 (totalTeams (initialHome\<lparr>totalTeams := Some 4\<rparr>))"
    "teamsOr3 (totalTeams (initialHome\<lparr>totalTeams := Some 4\<rparr>)) \<le> 20"
    by (simp_all add: initialHome_def teamsOr3_def)
  show ?thesis
    using h history_matches_counter [OF h refl,
      of "[GetNextMatch, RecordResult draw, GetNextMatch]" team2_win]
    unfolding run_example_4 by auto
qed

section \<open>Guards and failures\<close>


lemma run_example_twice:
  "run (startNewGame (initialHome\<lparr>totalTeams := Some 4\<rparr>)) [GetNextMatch, GetNextMatch] =
   \<lparr>totalTeams = Some 4,
    gameState = Some \<lparr>total_teams = 4, current_match = Some \<lparr>team1 = 3, team2 = 4\<rparr>,
                       waiting_queue = [], match_history = [], match_counter = 0,
                       draw_trackers = []\<rparr>,
    error = None\<rparr>"
  by (simp add: initialHome_def startNewGame_def teamsOr3_def initialState_def
      initialQueue_upto upto_rec1 getNextMatch_def)

lemma run_example_once:
  "run (startNewGame (initialHome\<lparr>totalTeams := Some 4\<rparr>)) [GetNextMatch] =
   \<lparr>totalTeams = Some 4,
    gameState = Some \<lparr>total_teams = 4, current_match = Some \<lparr>team1 = 1, team2 = 2\<rparr>,
                       waiting_queue = [3, 4], match_history = [], match_counter = 0,
                       draw_trackers = []\<rparr>,
    error = None\<rparr>"
  by (simp add: initialHome_def startNewGame_def teamsOr3_def initialState_def
      initialQueue_upto upto_rec1 getNextMatch_def)

lemma startNewGame_example_4:
  "startNewGame (initialHome\<lparr>totalTeams := Some 4\<rparr>) =
   \<lparr>totalTeams = Some 4,
    gameState = Some \<lparr>total_teams = 4, current_match = None,
                       waiting_queue = [1, 2, 3, 4], match_history = [], match_counter = 0,
                       draw_trackers = []\<rparr>,
    error = None\<rparr>"
  by (simp add: initialHome_def startNewGame_def teamsOr3_def initialState_def
      initialQueue_upto upto_rec1)

text \<open>
  C4, as the code has it. \<open>getNextMatch\<close> tests the length of the queue and nothing
  else. With a session whose queue holds at least two teams it succeeds, whether or not
  a match is in progress: it takes the first two entries off the queue, makes them team1
  and team2 of the current match in this order and clears the error. With a shorter
  queue it sets the error \<open>Not enough teams in queue to start a match\<close> and changes
  nothing else.
\<close>

theorem getNextMatch_needs_two_queued:
  assumes "gameState p = Some g"
  shows "(2 \<le> length (waiting_queue g) \<longrightarrow>
            getNextMatch p =
              p\<lparr>gameState := Some (g\<lparr>current_match :=
                                        Some \<lparr>team1 = waiting_queue g ! 0,
                                              team2 = waiting_queue g ! 1\<rparr>,
                                      waiting_queue := drop 2 (waiting_queue g)\<rparr>),
                error := None\<rparr>) \<and>
         (length (waiting_queue g) < 2 \<longrightarrow>
            getNextMatch p =
              p\<lparr>error := Some ''Not enough teams in queue to start a match''\<rparr>)"
proof (cases "length (waiting_queue g) < 2")
  case True
  with assms show ?thesis by (simp add: getNextMatch_short)
next
  case False
  then obtain t1 t2 rq where q: "waiting_queue g = t1 # t2 # rq"
    by (cases "waiting_queue g"; cases "tl (waiting_queue g)") auto
  with assms show ?thesis by (simp add: getNextMatch_draws)
qed

theorem getNextMatch_needs_two_queued_witness:
  "gameState (run (startNewGame (initialHome\<lparr>totalTeams := Some 4\<rparr>)) [GetNextMatch]) =
     Some \<lparr>total_teams = 4, current_match = Some \<lparr>team1 = 1, team2 = 2\<rparr>,
           waiting_queue = [3, 4], match_history = [], match_counter = 0,
           draw_trackers = []\<rparr> \<and>
   getNextMatch (run (startNewGame (initialHome\<lparr>totalTeams := Some 4\<rparr>)) [GetNextMatch]) =
     \<lparr>totalTeams = Some 4,
      gameState = Some \<lparr>total_teams = 4, current_match = Some \<lparr>team1 = 3, team2 = 4\<rparr>,
                         waiting_queue = [], match_history = [], match_counter = 0,
                         draw_trackers = []\<rparr>,
      error = None\<rparr> \<and>
   getNextMatch (run (startNewGame (initialHome\<lparr>totalTeams := Some 4\<rparr>))
       [GetNextMatch, GetNextMatch]) =
     \<lparr>totalTeams = Some 4,
      gameState = Some \<lparr>total_teams = 4, current_match = Some \<lparr>team1 = 3, team2 = 4\<rparr>,
                         waiting_queue = [], match_history = [], match_counter = 0,
                         draw_trackers = []\<rparr>,
      error = Some ''Not enough teams in queue to start a match''\<rparr>"
  using getNextMatch_needs_two_queued
    [of "run (startNewGame (initialHome\<lparr>totalTeams := Some 4\<rparr>)) [GetNextMatch]"
      "\<lparr>total_teams = 4, current_match = Some \<lparr>team1 = 1, team2 = 2\<rparr>,
           waiting_queue = [3, 4], match_history = [], match_counter = 0,
           draw_trackers = []\<rparr>"]
    getNextMatch_needs_two_queued
    [of "run (startNewGame (initialHome\<lparr>totalTeams := Some 4\<rparr>)) [GetNextMatch, GetNextMatch]"
      "\<lparr>total_teams = 4, current_match = Some \<lparr>team1 = 3, team2 = 4\<rparr>,
           waiting_queue = [], match_history = [], match_counter = 0,
           draw_trackers = []\<rparr>"]
  unfolding run_example_once run_example_twice by simp

text \<open>
  The claim C4 fails where a match is in progress and two teams wait: after the first
  \<open>getNextMatch\<close> of a session of four teams, a second call is accepted, reports no
  error and replaces the match of teams 1 and 2 by one of teams 3 and 4.
\<close>

theorem getNextMatch_guard_counterexample:
  "matchInProgress (run (startNewGame (initialHome\<lparr>totalTeams := Some 4\<rparr>)) [GetNextMatch]) \<and>
   error (getNextMatch
     (run (startNewGame (initialHome\<lparr>totalTeams := Some 4\<rparr>)) [GetNextMatch])) = None \<and>
   map_option current_match (gameState (getNextMatch
     (run (startNewGame (initialHome\<lparr>totalTeams := Some 4\<rparr>)) [GetNextMatch]))) =
     Some (Some \<lparr>team1 = 3, team2 = 4\<rparr>)"
  unfolding run_example_once by (simp add: matchInProgress_def getNextMatch_def)

text \<open>
  C8, as the code has it. A call that fails leaves the session as it was.
  \<open>getNextMatch\<close> with fewer than two teams in the queue sets its error message and
  changes nothing else; \<open>startNewGame\<close> with a count outside 3 to 20 sets its message
  and changes nothing else. \<open>recordResult\<close> with no match in progress returns at
  once: the whole page, session and error message included, stays as it was, so no
  error is reported.
\<close>

theorem failed_calls_keep_session:
  "(gameState p = Some g \<and> length (waiting_queue g) < 2 \<longrightarrow>
      getNextMatch p = p\<lparr>error := Some ''Not enough teams in queue to start a match''\<rparr> \<and>
      gameState (getNextMatch p) = gameState p) \<and>
   (\<not> matchInProgress p \<longrightarrow> recordResult r p = p) \<and>
   (teamsOr3 (totalTeams p) < 3 \<or> 20 < teamsOr3 (totalTeams p) \<longrightarrow>
      startNewGame p = p\<lparr>error := Some ''Please enter between 3 and 20 teams''\<rparr> \<and>
      gameState (startNewGame p) = gameState p)"
  by (auto simp: getNextMatch_def recordResult_def matchInProgress_def startNewGame_def
      split: option.splits)

theorem failed_calls_keep_session_witness:
  "gameState (run (startNewGame (initialHome\<lparr>totalTeams := Some 4\<rparr>))
       [GetNextMatch, GetNextMatch]) =
     Some \<lparr>total_teams = 4, current_match = Some \<lparr>team1 = 3, team2 = 4\<rparr>,
           waiting_queue = [], match_history = [], match_counter = 0,
           draw_trackers = []\<rparr> \<and>
   gameState (getNextMatch (run (startNewGame (initialHome\<lparr>totalTeams := Some 4\<rparr>))
       [GetNextMatch, GetNextMatch])) =
     Some \<lparr>total_teams = 4, current_match = Some \<lparr>team1 = 3, team2 = 4\<rparr>,
           waiting_queue = [], match_history = [], match_counter = 0,
           draw_trackers = []\<rparr> \<and>
   \<not> matchInProgress (startNewGame (initialHome\<lparr>totalTeams := Some 4\<rparr>)) \<and>
   recordResult draw (startNewGame (initialHome\<lparr>totalTeams := Some 4\<rparr>)) =
     startNewGame (initialHome\<lparr>totalTeams := Some 4\<rparr>) \<and>
   20 < teamsOr3 (totalTeams (initialHome\<lparr>totalTeams := Some 21\<rparr>)) \<and>
   gameState (startNewGame (initialHome\<lparr>totalTeams := Some 21\<rparr>)) = None"
proof -
  let ?p2 = "run (startNewGame (initialHome\<lparr>totalTeams := Some 4\<rparr>))
       [GetNextMatch, GetNextMatch]"
  let ?g2 = "\<lparr>total_teams = 4, current_match = Some \<lparr>team1 = 3, team2 = 4\<rparr>,
           waiting_queue = [], match_history = [], match_counter = 0,
           draw_trackers = []\<rparr>"
  let ?p4 = "startNewGame (initialHome\<lparr>totalTeams := Some 4\<rparr>)"
  let ?p21 = "initialHome\<lparr>totalTeams := Some 21\<rparr>"
  have a: "gameState ?p2 = Some ?g2"
    unfolding run_example_twice by simp
  have b: "gameState (getNextMatch ?p2) = Some ?g2"
    using failed_calls_keep_session [of ?p2 ?g2] a by simp
  have c: "\<not> matchInProgress ?p4"
    unfolding startNewGame_example_4 by (simp add: matchInProgress_def)
  have d: "recordResult draw ?p4 = ?p4"
    using failed_calls_keep_session [of ?p4 _ draw] c by simp
  have e: "20 < teamsOr3 (totalTeams ?p21)"
    by (simp add: initialHome_def teamsOr3_def)
  have f: "gameState (startNewGame ?p21) = None"
    using failed_calls_keep_session [of ?p21] e by (simp add: initialHome_def)
  from a b c d e f show ?thesis by simp
qed

text \<open>
  The claim C8 fails in its second half: on a new session of four teams, where no match
  is in progress, \<open>recordResult\<close> returns the page as it was, and the error of the
  page is still absent: nothing is signalled to the caller.
\<close>

theorem recordResult_silent_counterexample:
  "\<not> matchInProgress (startNewGame (initialHome\<lparr>totalTeams := Some 4\<rparr>)) \<and>
   recordResult team1_win (startNewGame (initialHome\<lparr>totalTeams := Some 4\<rparr>)) =
     startNewGame (initialHome\<lparr>totalTeams := Some 4\<rparr>) \<and>
   error (recordResult team1_win (startNewGame (initialHome\<lparr>totalTeams := Some 4\<rparr>))) = None"
  unfolding startNewGame_example_4 by (simp add: matchInProgress_def recordResult_def)

section \<open>Every team stays in the rotation\<close>


lemma teams_getNextMatch:
  assumes g: "gameState p = Some g" and idle: "current_match g = None"
  shows "mset (teamsPresent (getNextMatch p)) = mset (teamsPresent p)"
proof (cases "length (waiting_queue g) < 2")
  case True
  with g show ?thesis by (simp add: getNextMatch_short teamsPresent_def)
next
  case False
  then obtain t1 t2 rq where q: "waiting_queue g = t1 # t2 # rq"
    by (cases "waiting_queue g"; cases "tl (waiting_queue g)") auto
  with g idle show ?thesis
    by (simp add: getNextMatch_draws teamsPresent_def onPitch_def)
qed

lemma teams_recordResult:
  assumes g: "gameState p = Some g" and ok: "sessionOk n g"
  shows "mset (teamsPresent (recordResult r p)) = mset (teamsPresent p)"
proof (cases "current_match g")
  case None
  with g show ?thesis by (simp add: recordResult_idle)
next
  case (Some cm)
  show ?thesis
  proof (cases r)
    case team1_win
    from g Some show ?thesis
      unfolding team1_win recordResult_team1_win [OF g Some]
      by (simp add: teamsPresent_def onPitch_def)
  next
    case team2_win
    from g Some show ?thesis
      unfolding team2_win recordResult_team2_win [OF g Some]
      by (simp add: teamsPresent_def onPitch_def)
  next
    case draw
    show ?thesis
    proof (cases "findIndex (forPair (team1 cm) (team2 cm)) (draw_trackers g)")
      case None
      from g Some show ?thesis
        unfolding draw recordResult_draw_new [OF g Some None]
        by (simp add: teamsPresent_def onPitch_def min_def)
    next
      case (Some i)
      from findIndex_Some [OF Some]
      have i: "draw_trackers g ! i \<in> set (draw_trackers g)"
        and fp: "forPair (team1 cm) (team2 cm) (draw_trackers g ! i)"
        by simp_all
      from ok i have "nextToPlay (draw_trackers g ! i) = team1 (draw_trackers g ! i)
          \<or> nextToPlay (draw_trackers g ! i) = team2 (draw_trackers g ! i)"
        by (simp add: sessionOk_def trackersOk_def)
      with fp have "nextToPlay (draw_trackers g ! i) = team1 cm
          \<or> nextToPlay (draw_trackers g ! i) = team2 cm"
        by (auto simp: forPair_def)
      with g \<open>current_match g = Some cm\<close> show ?thesis
        unfolding draw recordResult_draw_old [OF g \<open>current_match g = Some cm\<close> Some refl]
        by (auto simp: teamsPresent_def onPitch_def)
    qed
  qed
qed

lemma teams_gated_run:
  "gameState p = Some g \<Longrightarrow> sessionOk n g \<Longrightarrow> gated p es \<Longrightarrow>
     mset (teamsPresent (run p es)) = mset (teamsPresent p)"
proof (induction es arbitrary: p g)
  case Nil
  show ?case by simp
next
  case (Cons e es)
  from sessionOk_step [OF Cons.prems(1,2), of e]
  obtain g1 where g1: "gameState (step p e) = Some g1" "sessionOk n g1" by blast
  from Cons.prems(3) have gate: "e = GetNextMatch \<longrightarrow> \<not> matchInProgress p"
    and rest: "gated (step p e) es"
    by simp_all
  have "mset (teamsPresent (step p e)) = mset (teamsPresent p)"
  proof (cases e)
    case GetNextMatch
    with gate Cons.prems(1) have "current_match g = None"
      by (simp add: matchInProgress_def)
    with Cons.prems(1) GetNextMatch show ?thesis
      by (simp add: teams_getNextMatch)
  next
    case (RecordResult r)
    with Cons.prems(1,2) show ?thesis
      by (simp add: teams_recordResult)
  qed
  with Cons.IH [OF g1 rest] show ?case by simp
qed

text \<open>
  C1, as the code has it. Start a session with a team count from 3 to 20 and make any
  sequence of \<open>getNextMatch\<close> and \<open>recordResult\<close> calls in which \<open>getNextMatch\<close> is
  only called while no match is in progress, as the page allows. Then the waiting queue
  together with the teams of the current match holds each of the teams
  1, ..., \<open>total_teams\<close> once: the multisets are equal, and no team is listed twice.
\<close>

theorem gated_runs_keep_every_team:
  assumes "3 \<le> teamsOr3 (totalTeams p0)" and "teamsOr3 (totalTeams p0) \<le> 20"
    and "gated (startNewGame p0) es"
  shows "\<exists>g. gameState (run (startNewGame p0) es) = Some g \<and>
           total_teams g = teamsOr3 (totalTeams p0) \<and>
           mset (waiting_queue g) + mset (onPitch g) = mset [1..total_teams g] \<and>
           distinct (waiting_queue g @ onPitch g)"
proof -
  let ?n = "teamsOr3 (totalTeams p0)"
  have start: "gameState (startNewGame p0) = Some (initialState ?n)"
    using assms(1,2) by (simp add: startNewGame_valid)
  from sessionOk_reachable [OF assms(1,2), of es]
  obtain g where g: "gameState (run (startNewGame p0) es) = Some g" and ok: "sessionOk ?n g"
    by blast
  from teams_gated_run [OF start sessionOk_initial assms(3)] start g
  have "mset (waiting_queue g @ onPitch g) = mset [1..?n]"
    by (simp add: teamsPresent_def initialState_def initialQueue_upto onPitch_def)
  with g ok show ?thesis
    by (simp add: sessionOk_def)
qed

lemma run_example_gated:
  "run (startNewGame (initialHome\<lparr>totalTeams := Some 4\<rparr>))
     [GetNextMatch, RecordResult draw, GetNextMatch, RecordResult team2_win, GetNextMatch] =
   \<lparr>totalTeams = Some 4,
    gameState = Some \<lparr>total_teams = 4, current_match = Some \<lparr>team1 = 4, team2 = 1\<rparr>,
                       waiting_queue = [2, 3],
                       match_history = [\<lparr>team1 = 1, team2 = 2, match_number = 1,
                                          result = Some draw\<rparr>,
                                        \<lparr>team1 = 3, team2 = 4, match_number = 2,
                                          result = Some team2_win\<rparr>],
                       match_counter = 2,
                       draw_trackers = [\<lparr>team1 = 1, team2 = 2, nextToPlay = 2\<rparr>]\<rparr>,
    error = None\<rparr>"
  by (simp add: initialHome_def startNewGame_def teamsOr3_def initialState_def
      initialQueue_upto upto_rec1 getNextMatch_def recordResult_def
      handleDrawTeamSelection_def forPair_def Let_def)

theorem gated_runs_keep_every_team_witness:
  "(3::int) \<le> teamsOr3 (totalTeams (initialHome\<lparr>totalTeams := Some 4\<rparr>)) \<and>
   teamsOr3 (totalTeams (initialHome\<lparr>totalTeams := Some 4\<rparr>)) \<le> 20 \<and>
   gated (startNewGame (initialHome\<lparr>totalTeams := Some 4\<rparr>))
     [GetNextMatch, RecordResult draw, GetNextMatch, RecordResult team2_win, GetNextMatch] \<and>
   mset (teamsPresent (run (startNewGame (initialHome\<lparr>totalTeams := Some 4\<rparr>))
     [GetNextMatch, RecordResult draw, GetNextMatch, RecordResult team2_win, GetNextMatch])) =
     mset [1, 2, 3, 4]"
proof -
  let ?p0 = "initialHome\<lparr>totalTeams := Some 4\<rparr>"
  let ?es = "[GetNextMatch, RecordResult draw, GetNextMatch, RecordResult team2_win,
              GetNextMatch]"
  have h: "(3::int) \<le> teamsOr3 (totalTeams ?p0)" "teamsOr3 (totalTeams ?p0) \<le> 20"
    by (simp_all add: initialHome_def teamsOr3_def)
  have gt: "gated (startNewGame ?p0) ?es"
    by (simp add: initialHome_def startNewGame_def teamsOr3_def initialState_def
        initialQueue_upto upto_rec1 getNextMatch_def recordResult_def
        handleDrawTeamSelection_def forPair_def Let_def matchInProgress_def)
  have n: "teamsOr3 (totalTeams ?p0) = 4"
    by (simp add: initialHome_def teamsOr3_def)
  from gated_runs_keep_every_team [OF h gt]
  have "mset (teamsPresent (run (startNewGame ?p0) ?es)) = mset [1..4]"
    by (auto simp only: teamsPresent_def n mset_append option.case)
  then have "mset (teamsPresent (run (startNewGame ?p0) ?es)) = mset [1, 2, 3, 4]"
    by (simp add: upto_rec1)
  with h gt show ?thesis by simp
qed

text \<open>
  The claim C1 fails for a sequence that calls \<open>getNextMatch\<close> twice in a row: in a
  session of four teams the second call replaces the match of teams 1 and 2 by the
  match of teams 3 and 4, and teams 1 and 2 are then neither queued nor playing.
\<close>

theorem double_getNextMatch_counterexample:
  "teamsPresent (run (startNewGame (initialHome\<lparr>totalTeams := Some 4\<rparr>))
     [GetNextMatch, GetNextMatch]) = [3, 4] \<and>
   mset (teamsPresent (run (startNewGame (initialHome\<lparr>totalTeams := Some 4\<rparr>))
     [GetNextMatch, GetNextMatch])) \<noteq> mset [1, 2, 3, 4]"
  unfolding run_example_twice by (simp add: teamsPresent_def onPitch_def)

section \<open>The table of draw trackers\<close>


lemma forPair_commute: "forPair a b = forPair b a"
  by (auto simp: forPair_def fun_eq_iff)

lemma forPair_key:
  "team1 t < team2 t \<Longrightarrow> forPair a b t \<longleftrightarrow> trackerKey t = (min a b, max a b) \<and> a \<noteq> b"
  by (auto simp: forPair_def trackerKey_def min_def max_def)

lemma filter_forPair_le1:
  assumes "trackersOk n ts"
  shows "length (filter (forPair a b) ts) \<le> 1"
proof -
  from assms have lt: "\<forall>t\<in>set ts. team1 t < team2 t" and d: "distinct (map trackerKey ts)"
    by (auto simp: trackersOk_def)
  show ?thesis
  proof (cases "a = b")
    case True
    with lt have "filter (forPair a b) ts = []"
      by (auto simp: filter_empty_conv forPair_def)
    then show ?thesis by simp
  next
    case False
    with lt have "filter (forPair a b) ts = filter (\<lambda>t. trackerKey t = (min a b, max a b)) ts"
      by (intro filter_cong) (auto simp: forPair_key)
    with filter_key_le1 [OF d] show ?thesis by simp
  qed
qed

lemma getNextMatch_trackers:
  assumes g: "gameState p = Some g"
  shows "\<exists>g'. gameState (getNextMatch p) = Some g' \<and> draw_trackers g' = draw_trackers g"
proof (cases "length (waiting_queue g) < 2")
  case True
  with g show ?thesis by (simp add: getNextMatch_short)
next
  case False
  then obtain t1 t2 rq where q: "waiting_queue g = t1 # t2 # rq"
    by (cases "waiting_queue g"; cases "tl (waiting_queue g)") auto
  with g show ?thesis by (simp add: getNextMatch_draws)
qed

lemma distinct_pairs:
  assumes "trackersOk n ts"
  shows "distinct (map (\<lambda>t. {team1 t, team2 t}) ts)"
proof -
  from assms have lt: "\<forall>t\<in>set ts. team1 t < team2 t" and d: "distinct (map trackerKey ts)"
    by (auto simp: trackersOk_def)
  from d have dts: "distinct ts" and inj: "inj_on trackerKey (set ts)"
    by (simp_all add: distinct_map)
  have "inj_on (\<lambda>t. {team1 t, team2 t}) (set ts)"
  proof (rule inj_onI)
    fix t u
    assume t: "t \<in> set ts" and u: "u \<in> set ts"
      and eq: "{team1 t, team2 t} = {team1 u, team2 u}"
    from lt t u have "team1 t < team2 t" "team1 u < team2 u" by simp_all
    with eq have "team1 t = team1 u \<and> team2 t = team2 u"
      by (auto simp: doubleton_eq_iff)
    then have "trackerKey t = trackerKey u"
      by (simp add: trackerKey_def)
    with inj t u show "t = u"
      by (auto dest: inj_onD)
  qed
  with dts show ?thesis
    by (simp add: distinct_map)
qed

lemma recordResult_trackers_change:
  assumes g: "gameState p = Some g"
  shows "\<exists>g'. gameState (recordResult r p) = Some g' \<and>
           (draw_trackers g' = draw_trackers g \<or>
            (\<exists>t. draw_trackers g' = draw_trackers g @ [t]) \<or>
            (\<exists>i<length (draw_trackers g).
               draw_trackers g' = (draw_trackers g)
                 [i := (draw_trackers g ! i)\<lparr>nextToPlay :=
                    (if nextToPlay (draw_trackers g ! i) = team1 (draw_trackers g ! i)
                     then team2 (draw_trackers g ! i)
                     else team1 (draw_trackers g ! i))\<rparr>]))"
proof (cases "current_match g")
  case None
  with g show ?thesis by (simp add: recordResult_idle)
next
  case (Some cm)
  show ?thesis
  proof (cases r)
    case team1_win
    show ?thesis unfolding team1_win recordResult_team1_win [OF g Some] by simp
  next
    case team2_win
    show ?thesis unfolding team2_win recordResult_team2_win [OF g Some] by simp
  next
    case draw
    show ?thesis
    proof (cases "findIndex (forPair (team1 cm) (team2 cm)) (draw_trackers g)")
      case None
      show ?thesis unfolding draw recordResult_draw_new [OF g Some None] by simp
    next
      case (Some i)
      from findIndex_Some [OF Some] have i: "i < length (draw_trackers g)" by simp
      show ?thesis
        unfolding draw recordResult_draw_old [OF g \<open>current_match g = Some cm\<close> Some refl]
        using i by auto
    qed
  qed
qed

lemma step_trackers_change:
  assumes g: "gameState p = Some g"
  shows "\<exists>g'. gameState (step p e) = Some g' \<and>
           (draw_trackers g' = draw_trackers g \<or>
            (\<exists>t. draw_trackers g' = draw_trackers g @ [t]) \<or>
            (\<exists>i<length (draw_trackers g).
               draw_trackers g' = (draw_trackers g)
                 [i := (draw_trackers g ! i)\<lparr>nextToPlay :=
                    (if nextToPlay (draw_trackers g ! i) = team1 (draw_trackers g ! i)
                     then team2 (draw_trackers g ! i)
                     else team1 (draw_trackers g ! i))\<rparr>]))"
proof (cases e)
  case GetNextMatch
  from getNextMatch_trackers [OF g] show ?thesis
    unfolding GetNextMatch by auto
next
  case (RecordResult r)
  from recordResult_trackers_change [OF g] show ?thesis
    unfolding RecordResult by simp
qed

text \<open>
  C9. In every state that a new session reaches by \<open>getNextMatch\<close> and
  \<open>recordResult\<close> calls, no two trackers of \<open>draw_trackers\<close> store the same
  unordered pair of teams, so that a lookup for a pair finds at most one tracker. Every
  tracker has \<open>team1 < team2\<close>, both ids are teams of the session, and its
  \<open>nextToPlay\<close> is one of the two. Either call leaves \<open>draw_trackers\<close> as it is, or
  adds one tracker at its end, or replaces the \<open>nextToPlay\<close> of one tracker by the
  other of its two stored ids and changes nothing else: no tracker is removed, and
  the two team ids of a stored tracker never change.
\<close>

theorem trackers_canonical_and_kept:
  assumes "3 \<le> teamsOr3 (totalTeams p0)" and "teamsOr3 (totalTeams p0) \<le> 20"
    and "p = run (startNewGame p0) es"
  shows "\<exists>g. gameState p = Some g \<and>
           distinct (map (\<lambda>t. {team1 t, team2 t}) (draw_trackers g)) \<and>
           (\<forall>a b. length (filter (forPair a b) (draw_trackers g)) \<le> 1) \<and>
           (\<forall>t\<in>set (draw_trackers g).
              team1 t < team2 t \<and> 1 \<le> team1 t \<and> team2 t \<le> total_teams g \<and>
              (nextToPlay t = team1 t \<or> nextToPlay t = team2 t)) \<and>
           (\<forall>e. \<exists>g'. gameState (step p e) = Some g' \<and>
              (draw_trackers g' = draw_trackers g \<or>
               (\<exists>t. draw_trackers g' = draw_trackers g @ [t]) \<or>
               (\<exists>i<length (draw_trackers g).
                  draw_trackers g' = (draw_trackers g)
                    [i := (draw_trackers g ! i)\<lparr>nextToPlay :=
                       (if nextToPlay (draw_trackers g ! i) = team1 (draw_trackers g ! i)
                        then team2 (draw_trackers g ! i)
                        else team1 (draw_trackers g ! i))\<rparr>])))"
proof -
  from sessionOk_reachable [OF assms(1,2), of es] assms(3)
  obtain g where g: "gameState p = Some g" and ok: "sessionOk (teamsOr3 (totalTeams p0)) g"
    by auto
  from ok have tr: "trackersOk (total_teams g) (draw_trackers g)"
    by (simp add: sessionOk_def)
  have "distinct (map (\<lambda>t. {team1 t, team2 t}) (draw_trackers g))"
    by (rule distinct_pairs [OF tr])
  moreover have "\<forall>a b. length (filter (forPair a b) (draw_trackers g)) \<le> 1"
    using filter_forPair_le1 [OF tr] by simp
  moreover from tr have "\<forall>t\<in>set (draw_trackers g).
      team1 t < team2 t \<and> 1 \<le> team1 t \<and> team2 t \<le> total_teams g \<and>
      (nextToPlay t = team1 t \<or> nextToPlay t = team2 t)"
    by (simp add: trackersOk_def)
  moreover have "\<forall>e. \<exists>g'. gameState (step p e) = Some g' \<and>
      (draw_trackers g' = draw_trackers g \<or>
       (\<exists>t. draw_trackers g' = draw_trackers g @ [t]) \<or>
       (\<exists>i<length (draw_trackers g).
          draw_trackers g' = (draw_trackers g)
            [i := (draw_trackers g ! i)\<lparr>nextToPlay :=
               (if nextToPlay (draw_trackers g ! i) = team1 (draw_trackers g ! i)
                then team2 (draw_trackers g ! i)
                else team1 (draw_trackers g ! i))\<rparr>]))"
    using step_trackers_change [OF g] by simp
  ultimately show ?thesis using g by blast
qed


section \<open>Recording a draw\<close>


lemma findIndex_unique:
  assumes "findIndex P xs = Some i" and "length (filter P xs) \<le> 1"
    and "t \<in> set xs" and "P t"
  shows "xs ! i = t"
proof -
  from findIndex_Some [OF assms(1)] have "xs ! i \<in> set (filter P xs)" by simp
  moreover from assms(3,4) have "t \<in> set (filter P xs)" by simp
  ultimately show ?thesis
    using assms(2) by (cases "filter P xs" rule: remdups_adj.cases) auto
qed

lemma update_found_as_map:
  "findIndex P xs = Some i \<Longrightarrow> length (filter P xs) \<le> 1 \<Longrightarrow>
     xs[i := f (xs ! i)] = map (\<lambda>u. if P u then f u else u) xs"
proof (induction xs arbitrary: i)
  case Nil
  then show ?case by simp
next
  case (Cons x xs)
  show ?case
  proof (cases "P x")
    case True
    with Cons.prems have "i = 0" and "filter P xs = []" by simp_all
    then have "\<forall>u\<in>set xs. \<not> P u" by (simp add: filter_empty_conv)
    then have "map (\<lambda>u. if P u then f u else u) xs = xs"
      by (intro map_idI) simp
    with True \<open>i = 0\<close> show ?thesis by simp
  next
    case False
    with Cons.prems obtain j where j: "findIndex P xs = Some j" "i = Suc j"
      by auto
    with Cons.prems False Cons.IH [of j] show ?thesis by simp
  qed
qed

text \<open>
  C2. Take a state that a new session reaches by \<open>getNextMatch\<close> and
  \<open>recordResult\<close> calls, with a match in progress, and record a draw. If no tracker is
  stored for the two teams, the lower-numbered team and then the higher-numbered team
  are appended to the queue, and a tracker of the pair is added whose \<open>nextToPlay\<close> is
  the higher-numbered team. If a tracker is stored for them, its \<open>nextToPlay\<close> is one
  of the two teams; that team and then the other one are appended to the queue, and the
  tracker's \<open>nextToPlay\<close> becomes the other one, all other trackers staying as they
  are.
\<close>

theorem draw_requeues_by_tracker:
  assumes "3 \<le> teamsOr3 (totalTeams p0)" and "teamsOr3 (totalTeams p0) \<le> 20"
    and "p = run (startNewGame p0) es"
    and "gameState p = Some g" and "current_match g = Some cm"
  shows "\<exists>g'. gameState (recordResult draw p) = Some g' \<and>
           ((\<forall>t\<in>set (draw_trackers g). \<not> forPair (team1 cm) (team2 cm) t) \<longrightarrow>
              waiting_queue g' = waiting_queue g @
                [min (team1 cm) (team2 cm), max (team1 cm) (team2 cm)] \<and>
              draw_trackers g' = draw_trackers g @
                [\<lparr>team1 = min (team1 cm) (team2 cm), team2 = max (team1 cm) (team2 cm),
                  nextToPlay = max (team1 cm) (team2 cm)\<rparr>]) \<and>
           (\<forall>t\<in>set (draw_trackers g). forPair (team1 cm) (team2 cm) t \<longrightarrow>
              (nextToPlay t = team1 cm \<or> nextToPlay t = team2 cm) \<and>
              waiting_queue g' = waiting_queue g @
                [nextToPlay t, (if nextToPlay t = team1 cm then team2 cm else team1 cm)] \<and>
              draw_trackers g' =
                map (\<lambda>u. if forPair (team1 cm) (team2 cm) u
                          then u\<lparr>nextToPlay :=
                                 (if nextToPlay t = team1 cm then team2 cm else team1 cm)\<rparr>
                          else u)
                  (draw_trackers g))"
proof -
  let ?P = "forPair (team1 cm) (team2 cm)"
  let ?ts = "draw_trackers g"
  from sessionOk_reachable [OF assms(1,2), of es] assms(3,4)
  have ok: "sessionOk (teamsOr3 (totalTeams p0)) g"
    by auto
  then have tr: "trackersOk (teamsOr3 (totalTeams p0)) ?ts"
    by (simp add: sessionOk_def)
  note g = assms(4) and cm = assms(5)
  show ?thesis
  proof (cases "findIndex ?P ?ts")
    case None
    then have no: "\<forall>t\<in>set ?ts. \<not> ?P t"
      by (simp add: findIndex_None_iff)
    have "(if min (team1 cm) (team2 cm) = team1 cm then team2 cm else team1 cm) =
        max (team1 cm) (team2 cm)"
      by (simp add: min_def max_def)
    with no show ?thesis
      unfolding recordResult_draw_new [OF g cm None] by simp
  next
    case (Some i)
    let ?tr = "?ts ! i"
    let ?tog = "if nextToPlay ?tr = team1 ?tr then team2 ?tr else team1 ?tr"
    let ?other = "if nextToPlay ?tr = team1 cm then team2 cm else team1 cm"
    from findIndex_Some [OF Some] have i: "i < length ?ts" and fp: "?P ?tr"
      by simp_all
    from i have mem: "?tr \<in> set ?ts" by simp
    with tr have canon: "team1 ?tr < team2 ?tr"
      and ntp: "nextToPlay ?tr = team1 ?tr \<or> nextToPlay ?tr = team2 ?tr"
      by (simp_all add: trackersOk_def)
    from fp ntp have pair: "nextToPlay ?tr = team1 cm \<or> nextToPlay ?tr = team2 cm"
      by (auto simp: forPair_def)
    from fp ntp canon have tog: "?tog = ?other"
      by (auto simp: forPair_def)
    have one: "length (filter ?P ?ts) \<le> 1"
      by (rule filter_forPair_le1 [OF tr])
    have upd: "?ts[i := ?tr\<lparr>nextToPlay := ?other\<rparr>] =
        map (\<lambda>u. if ?P u then u\<lparr>nextToPlay := ?other\<rparr> else u) ?ts"
      by (rule update_found_as_map [OF Some one, of "\<lambda>u. u\<lparr>nextToPlay := ?other\<rparr>"])
    have same: "\<forall>t\<in>set ?ts. ?P t \<longrightarrow> t = ?tr"
      using findIndex_unique [OF Some one] by blast
    from mem fp have some: "\<not> (\<forall>t\<in>set ?ts. \<not> ?P t)" by blast
    have g': "gameState (recordResult draw p) =
        Some (g\<lparr>current_match := None,
                waiting_queue := waiting_queue g @ [nextToPlay ?tr, ?other],
                match_history := match_history g @
                  [\<lparr>team1 = team1 cm, team2 = team2 cm,
                    match_number = match_counter g + 1, result = Some draw\<rparr>],
                match_counter := match_counter g + 1,
                draw_trackers := map (\<lambda>u. if ?P u then u\<lparr>nextToPlay := ?other\<rparr> else u) ?ts\<rparr>)"
      unfolding recordResult_draw_old [OF g cm Some refl] tog upd by simp
    show ?thesis
      unfolding g' using some same pair by auto
  qed
qed

section \<open>Alternation over repeated draws\<close>


lemma scheduledFirst_new:
  assumes "gameState p = Some g" and "current_match g = Some cm"
    and "findIndex (forPair (team1 cm) (team2 cm)) (draw_trackers g) = None"
  shows "scheduledFirst p = Some (min (team1 cm) (team2 cm))"
  unfolding scheduledFirst_def recordResult_draw_new [OF assms] using assms(1) by simp

lemma scheduledFirst_old:
  assumes "gameState p = Some g" and "current_match g = Some cm"
    and "findIndex (forPair (team1 cm) (team2 cm)) (draw_trackers g) = Some i"
  shows "scheduledFirst p = Some (nextToPlay (draw_trackers g ! i))"
  unfolding scheduledFirst_def recordResult_draw_old [OF assms refl] using assms(1) by simp

lemma playingPair_iff:
  "gameState p = Some g \<Longrightarrow> current_match g = Some cm \<Longrightarrow>
     playingPair a b p \<longleftrightarrow> (team1 cm = a \<and> team2 cm = b) \<or> (team1 cm = b \<and> team2 cm = a)"
  by (simp add: playingPair_def)

lemma forPair_same:
  "(t1 = a \<and> t2 = b) \<or> (t1 = b \<and> t2 = a) \<Longrightarrow> forPair t1 t2 = forPair a b"
  by (auto simp: forPair_def fun_eq_iff)

lemma forPair_other:
  "\<not> ((t1 = a \<and> t2 = b) \<or> (t1 = b \<and> t2 = a)) \<Longrightarrow> forPair t1 t2 t \<Longrightarrow> \<not> forPair a b t"
  by (auto simp: forPair_def)

lemma step_other_pair:
  assumes g: "gameState p = Some g"
    and other: "\<not> (e = RecordResult draw \<and> playingPair a b p)"
  shows "\<exists>g'. gameState (step p e) = Some g' \<and>
           filter (forPair a b) (draw_trackers g') = filter (forPair a b) (draw_trackers g)"
proof (cases e)
  case GetNextMatch
  from getNextMatch_trackers [OF g] show ?thesis
    unfolding GetNextMatch by auto
next
  case (RecordResult r)
  show ?thesis
  proof (cases "current_match g")
    case None
    with g show ?thesis unfolding RecordResult by (simp add: recordResult_idle)
  next
    case (Some cm)
    show ?thesis
    proof (cases r)
      case team1_win
      show ?thesis
        unfolding RecordResult team1_win step.simps recordResult_team1_win [OF g Some]
        by simp
    next
      case team2_win
      show ?thesis
        unfolding RecordResult team2_win step.simps recordResult_team2_win [OF g Some]
        by simp
    next
      case draw
      with other RecordResult have "\<not> playingPair a b p" by simp
      with g Some have np: "\<not> ((team1 cm = a \<and> team2 cm = b) \<or> (team1 cm = b \<and> team2 cm = a))"
        by (simp add: playingPair_iff)
      show ?thesis
      proof (cases "findIndex (forPair (team1 cm) (team2 cm)) (draw_trackers g)")
        case None
        from np have "\<not> forPair a b \<lparr>team1 = min (team1 cm) (team2 cm),
            team2 = max (team1 cm) (team2 cm), nextToPlay = max (team1 cm) (team2 cm)\<rparr>"
          by (auto simp: forPair_def min_def max_def split: if_splits)
        then show ?thesis
          unfolding RecordResult draw step.simps recordResult_draw_new [OF g Some None]
          by simp
      next
        case (Some i)
        let ?tr = "draw_trackers g ! i"
        from findIndex_Some [OF Some] have i: "i < length (draw_trackers g)"
          and fp: "forPair (team1 cm) (team2 cm) ?tr"
          by simp_all
        from forPair_other [OF np fp] have n1: "\<not> forPair a b ?tr" .
        then have n2: "\<not> forPair a b (?tr\<lparr>nextToPlay :=
            (if nextToPlay ?tr = team1 ?tr then team2 ?tr else team1 ?tr)\<rparr>)"
          by (simp add: forPair_def)
        from filter_update_other [OF i n1 n2] show ?thesis
          unfolding RecordResult draw step.simps
            recordResult_draw_old [OF g \<open>current_match g = Some cm\<close> Some refl]
          by simp
      qed
    qed
  qed
qed

lemma step_this_pair:
  assumes g: "gameState p = Some g" and ab: "a < b" and play: "playingPair a b p"
  shows "(filter (forPair a b) (draw_trackers g) = [] \<longrightarrow>
            scheduledFirst p = Some a \<and>
            (\<exists>g'. gameState (recordResult draw p) = Some g' \<and>
               filter (forPair a b) (draw_trackers g') =
                 [\<lparr>team1 = a, team2 = b, nextToPlay = b\<rparr>])) \<and>
         (filter (forPair a b) (draw_trackers g) = [\<lparr>team1 = a, team2 = b, nextToPlay = x\<rparr>] \<longrightarrow>
            scheduledFirst p = Some x \<and>
            (\<exists>g'. gameState (recordResult draw p) = Some g' \<and>
               filter (forPair a b) (draw_trackers g') =
                 [\<lparr>team1 = a, team2 = b, nextToPlay = (if x = a then b else a)\<rparr>]))"
proof -
  from play g obtain cm where cm: "current_match g = Some cm"
    by (auto simp: playingPair_def split: option.splits)
  with play g have pair: "(team1 cm = a \<and> team2 cm = b) \<or> (team1 cm = b \<and> team2 cm = a)"
    by (simp add: playingPair_iff)
  then have P: "forPair (team1 cm) (team2 cm) = forPair a b"
    by (rule forPair_same)
  from pair ab have mm: "min (team1 cm) (team2 cm) = a" "max (team1 cm) (team2 cm) = b"
    by auto
  show ?thesis
  proof (intro conjI impI)
    assume e: "filter (forPair a b) (draw_trackers g) = []"
    then have none: "findIndex (forPair (team1 cm) (team2 cm)) (draw_trackers g) = None"
      by (simp add: P findIndex_None_iff filter_empty_conv)
    from scheduledFirst_new [OF g cm none] mm show "scheduledFirst p = Some a"
      by simp
    have "forPair a b \<lparr>team1 = a, team2 = b, nextToPlay = b\<rparr>"
      by (simp add: forPair_def)
    with e mm show "\<exists>g'. gameState (recordResult draw p) = Some g' \<and>
        filter (forPair a b) (draw_trackers g') = [\<lparr>team1 = a, team2 = b, nextToPlay = b\<rparr>]"
      unfolding recordResult_draw_new [OF g cm none] by simp
  next
    assume e: "filter (forPair a b) (draw_trackers g) = [\<lparr>team1 = a, team2 = b, nextToPlay = x\<rparr>]"
    let ?t = "\<lparr>team1 = a, team2 = b, nextToPlay = x\<rparr>"
    from e have "?t \<in> set (filter (forPair a b) (draw_trackers g))" by simp
    then have "\<not> (\<forall>t\<in>set (draw_trackers g). \<not> forPair a b t)" by auto
    then obtain i where some: "findIndex (forPair (team1 cm) (team2 cm)) (draw_trackers g) = Some i"
      unfolding P using findIndex_None_iff [of "forPair a b" "draw_trackers g"] by auto
    have fy: "forPair a b \<lparr>team1 = a, team2 = b, nextToPlay = (if x = a then b else a)\<rparr>"
      by (simp add: forPair_def)
    from findIndex_filter_single [OF some [unfolded P] e,
        of "\<lparr>team1 = a, team2 = b, nextToPlay = (if x = a then b else a)\<rparr>"] fy
    have at: "draw_trackers g ! i = ?t"
      and upd: "filter (forPair a b)
          ((draw_trackers g)[i := \<lparr>team1 = a, team2 = b, nextToPlay = (if x = a then b else a)\<rparr>]) =
          [\<lparr>team1 = a, team2 = b, nextToPlay = (if x = a then b else a)\<rparr>]"
      by simp_all
    from scheduledFirst_old [OF g cm some] at show "scheduledFirst p = Some x"
      by simp
    from upd show "\<exists>g'. gameState (recordResult draw p) = Some g' \<and>
        filter (forPair a b) (draw_trackers g') =
          [\<lparr>team1 = a, team2 = b, nextToPlay = (if x = a then b else a)\<rparr>]"
      unfolding recordResult_draw_old [OF g cm some at] by (cases "x = a") simp_all
  qed
qed


lemma alternation_run:
  assumes ab: "a < b" and g0: "gameState p0 = Some g0" and ok0: "sessionOk n g0"
    and t0: "filter (forPair a b) (draw_trackers g0) = []"
  shows "\<exists>g. gameState (run p0 es) = Some g \<and> sessionOk n g \<and>
           drawFirsts a b p0 es =
             map (\<lambda>i. Some (if even i then a else b)) [0..<drawCount a b p0 es] \<and>
           filter (forPair a b) (draw_trackers g) =
             (if drawCount a b p0 es = 0 then []
              else [\<lparr>team1 = a, team2 = b,
                     nextToPlay = (if even (drawCount a b p0 es) then a else b)\<rparr>])"
proof (induction es rule: rev_induct)
  case Nil
  from g0 ok0 t0 show ?case by simp
next
  case (snoc e es)
  let ?p = "run p0 es"
  let ?k = "drawCount a b p0 es"
  from snoc.IH obtain g where g: "gameState ?p = Some g" and ok: "sessionOk n g"
    and fs: "drawFirsts a b p0 es = map (\<lambda>i. Some (if even i then a else b)) [0..<?k]"
    and ts: "filter (forPair a b) (draw_trackers g) =
      (if ?k = 0 then []
       else [\<lparr>team1 = a, team2 = b, nextToPlay = (if even ?k then a else b)\<rparr>])"
    by blast
  from sessionOk_step [OF g ok, of e]
  obtain g1 where g1: "gameState (step ?p e) = Some g1" and ok1: "sessionOk n g1"
    by blast
  show ?case
  proof (cases "e = RecordResult draw \<and> playingPair a b ?p")
    case False
    from step_other_pair [OF g False] g1
    have "filter (forPair a b) (draw_trackers g1) = filter (forPair a b) (draw_trackers g)"
      by simp
    moreover have "drawCount a b p0 (es @ [e]) = ?k"
      using False by (auto simp: drawCount_append)
    moreover have "drawFirsts a b p0 (es @ [e]) = drawFirsts a b p0 es"
      using False by (auto simp: drawFirsts_append)
    ultimately show ?thesis
      using g1 ok1 fs ts by (simp add: run_append)
  next
    case True
    then have e: "e = RecordResult draw" and play: "playingPair a b ?p"
      by simp_all
    have cnt: "drawCount a b p0 (es @ [e]) = Suc ?k"
      using True by (simp add: drawCount_append)
    have firsts: "drawFirsts a b p0 (es @ [e]) = drawFirsts a b p0 es @ [scheduledFirst ?p]"
      using True by (simp add: drawFirsts_append)
    note this_pair = step_this_pair [OF g ab play]
    show ?thesis
    proof (cases "?k = 0")
      case True
      with ts this_pair g1 e
      have "scheduledFirst ?p = Some a"
        and "filter (forPair a b) (draw_trackers g1) = [\<lparr>team1 = a, team2 = b, nextToPlay = b\<rparr>]"
        by auto
      with True g1 ok1 fs show ?thesis
        unfolding cnt firsts by (simp add: run_append)
    next
      case False
      let ?x = "if even ?k then a else b"
      from False ts this_pair [of ?x] g1 e
      have sf: "scheduledFirst ?p = Some ?x"
        and tr: "filter (forPair a b) (draw_trackers g1) =
          [\<lparr>team1 = a, team2 = b, nextToPlay = (if ?x = a then b else a)\<rparr>]"
        by auto
      from ab have "(if ?x = a then b else a) = (if even (Suc ?k) then a else b)"
        by auto
      with tr have tr': "filter (forPair a b) (draw_trackers g1) =
          [\<lparr>team1 = a, team2 = b, nextToPlay = (if even (Suc ?k) then a else b)\<rparr>]"
        by simp
      from g1 ok1 fs sf tr' show ?thesis
        unfolding cnt firsts by (simp add: run_append)
    qed
  qed
qed

text \<open>
  C3. Start a session with a team count from 3 to 20, make any sequence of
  \<open>getNextMatch\<close> and \<open>recordResult\<close> calls, and take two teams \<open>a < b\<close>. Of the
  draws recorded between them, the first scheduled \<open>a\<close> to play first, the second
  \<open>b\<close>, the third \<open>a\<close> again, and so on in strict alternation. In the state reached,
  every tracker has a \<open>nextToPlay\<close> that is one of its two stored team ids. The pair has
  no tracker before its first draw, and after \<open>k\<close> draws it has the one tracker with
  \<open>team1 = a\<close>, \<open>team2 = b\<close> and \<open>nextToPlay = b\<close> for odd \<open>k\<close>, \<open>a\<close> for even
  \<open>k\<close>: the tracker has toggled once for each draw of the pair and for nothing else.
\<close>

theorem first_to_play_alternates:
  assumes "3 \<le> teamsOr3 (totalTeams p0)" and "teamsOr3 (totalTeams p0) \<le> 20"
    and "a < b"
    and "k = drawCount a b (startNewGame p0) es"
  shows "drawFirsts a b (startNewGame p0) es =
           map (\<lambda>i. Some (if even i then a else b)) [0..<k] \<and>
         (\<exists>g. gameState (run (startNewGame p0) es) = Some g \<and>
            (\<forall>t\<in>set (draw_trackers g). nextToPlay t = team1 t \<or> nextToPlay t = team2 t) \<and>
            filter (forPair a b) (draw_trackers g) =
              (if k = 0 then []
               else [\<lparr>team1 = a, team2 = b, nextToPlay = (if even k then a else b)\<rparr>]))"
proof -
  let ?n = "teamsOr3 (totalTeams p0)"
  have start: "gameState (startNewGame p0) = Some (initialState ?n)"
    using assms(1,2) by (simp add: startNewGame_valid)
  have none: "filter (forPair a b) (draw_trackers (initialState ?n)) = []"
    by (simp add: initialState_def)
  from alternation_run [OF assms(3) start sessionOk_initial none, of es]
  show ?thesis
    unfolding assms(4) by (auto simp: sessionOk_def trackersOk_def)
qed

section \<open>A session of three teams with three draws\<close>


lemmas page_defs =
  initialHome_def startNewGame_def teamsOr3_def initialState_def initialQueue_upto upto_rec1
  getNextMatch_def recordResult_def handleDrawTeamSelection_def forPair_def Let_def

lemma run_example_3:
  "run (startNewGame (initialHome\<lparr>totalTeams := Some 3\<rparr>))
     [GetNextMatch, RecordResult draw, GetNextMatch, RecordResult draw, GetNextMatch] =
   \<lparr>totalTeams = Some 3,
    gameState = Some \<lparr>total_teams = 3, current_match = Some \<lparr>team1 = 2, team2 = 1\<rparr>,
                       waiting_queue = [3],
                       match_history = [\<lparr>team1 = 1, team2 = 2, match_number = 1,
                                          result = Some draw\<rparr>,
                                        \<lparr>team1 = 3, team2 = 1, match_number = 2,
                                          result = Some draw\<rparr>],
                       match_counter = 2,
                       draw_trackers = [\<lparr>team1 = 1, team2 = 2, nextToPlay = 2\<rparr>,
                                        \<lparr>team1 = 1, team2 = 3, nextToPlay = 3\<rparr>]\<rparr>,
    error = None\<rparr>"
  by (simp add: page_defs)

lemma run_example_3_first:
  "run (startNewGame (initialHome\<lparr>totalTeams := Some 3\<rparr>)) [GetNextMatch] =
   \<lparr>totalTeams = Some 3,
    gameState = Some \<lparr>total_teams = 3, current_match = Some \<lparr>team1 = 1, team2 = 2\<rparr>,
                       waiting_queue = [3], match_history = [], match_counter = 0,
                       draw_trackers = []\<rparr>,
    error = None\<rparr>"
  by (simp add: page_defs)

theorem draw_requeues_by_tracker_witness:
  "(3::int) \<le> teamsOr3 (totalTeams (initialHome\<lparr>totalTeams := Some 3\<rparr>)) \<and>
   teamsOr3 (totalTeams (initialHome\<lparr>totalTeams := Some 3\<rparr>)) \<le> 20 \<and>
   map_option waiting_queue (gameState (recordResult draw
     (run (startNewGame (initialHome\<lparr>totalTeams := Some 3\<rparr>)) [GetNextMatch]))) =
     Some [3, 1, 2] \<and>
   map_option draw_trackers (gameState (recordResult draw
     (run (startNewGame (initialHome\<lparr>totalTeams := Some 3\<rparr>)) [GetNextMatch]))) =
     Some [\<lparr>team1 = 1, team2 = 2, nextToPlay = 2\<rparr>] \<and>
   map_option waiting_queue (gameState (recordResult draw
     (run (startNewGame (initialHome\<lparr>totalTeams := Some 3\<rparr>))
        [GetNextMatch, RecordResult draw, GetNextMatch, RecordResult draw, GetNextMatch]))) =
     Some [3, 2, 1] \<and>
   map_option draw_trackers (gameState (recordResult draw
     (run (startNewGame (initialHome\<lparr>totalTeams := Some 3\<rparr>))
        [GetNextMatch, RecordResult draw, GetNextMatch, RecordResult draw, GetNextMatch]))) =
     Some [\<lparr>team1 = 1, team2 = 2, nextToPlay = 1\<rparr>,
           \<lparr>team1 = 1, team2 = 3, nextToPlay = 3\<rparr>]"
proof -
  let ?p0 = "initialHome\<lparr>totalTeams := Some 3\<rparr>"
  let ?es1 = "[GetNextMatch]"
  let ?g1 = "\<lparr>total_teams = 3, current_match = Some \<lparr>team1 = 1, team2 = 2\<rparr>,
             waiting_queue = [3], match_history = [], match_counter = 0,
             draw_trackers = []\<rparr>"
  let ?es5 = "[GetNextMatch, RecordResult draw, GetNextMatch, RecordResult draw, GetNextMatch]"
  let ?g5 = "\<lparr>total_teams = 3, current_match = Some \<lparr>team1 = 2, team2 = 1\<rparr>,
             waiting_queue = [3],
             match_history = [\<lparr>team1 = 1, team2 = 2, match_number = 1, result = Some draw\<rparr>,
                              \<lparr>team1 = 3, team2 = 1, match_number = 2, result = Some draw\<rparr>],
             match_counter = 2,
             draw_trackers = [\<lparr>team1 = 1, team2 = 2, nextToPlay = 2\<rparr>,
                              \<lparr>team1 = 1, team2 = 3, nextToPlay = 3\<rparr>]\<rparr>"
  have h: "(3::int) \<le> teamsOr3 (totalTeams ?p0)" "teamsOr3 (totalTeams ?p0) \<le> 20"
    by (simp_all add: initialHome_def teamsOr3_def)
  have s1: "gameState (run (startNewGame ?p0) ?es1) = Some ?g1"
    unfolding run_example_3_first by simp
  have s5: "gameState (run (startNewGame ?p0) ?es5) = Some ?g5"
    unfolding run_example_3 by simp
  have c1: "current_match ?g1 = Some \<lparr>team1 = 1, team2 = 2\<rparr>"
    and c5: "current_match ?g5 = Some \<lparr>team1 = 2, team2 = 1\<rparr>"
    by simp_all
  from draw_requeues_by_tracker [OF h refl s1 c1]
  have a: "map_option waiting_queue (gameState (recordResult draw
        (run (startNewGame ?p0) ?es1))) = Some [3, 1, 2]"
    and b: "map_option draw_trackers (gameState (recordResult draw
        (run (startNewGame ?p0) ?es1))) = Some [\<lparr>team1 = 1, team2 = 2, nextToPlay = 2\<rparr>]"
    by auto
  from draw_requeues_by_tracker [OF h refl s5 c5]
  have c: "map_option waiting_queue (gameState (recordResult draw
        (run (startNewGame ?p0) ?es5))) = Some [3, 2, 1]"
    and d: "map_option draw_trackers (gameState (recordResult draw
        (run (startNewGame ?p0) ?es5))) =
        Some [\<lparr>team1 = 1, team2 = 2, nextToPlay = 1\<rparr>,
              \<lparr>team1 = 1, team2 = 3, nextToPlay = 3\<rparr>]"
    by (auto simp: forPair_def)
  from h a b c d show ?thesis by simp
qed

theorem first_to_play_alternates_witness:
  "(3::int) \<le> teamsOr3 (totalTeams (initialHome\<lparr>totalTeams := Some 3\<rparr>)) \<and>
   teamsOr3 (totalTeams (initialHome\<lparr>totalTeams := Some 3\<rparr>)) \<le> 20 \<and>
   (1::int) < 2 \<and>
   drawCount 1 2 (startNewGame (initialHome\<lparr>totalTeams := Some 3\<rparr>))
     [GetNextMatch, RecordResult draw, GetNextMatch, RecordResult draw, GetNextMatch,
      RecordResult draw] = 2 \<and>
   drawFirsts 1 2 (startNewGame (initialHome\<lparr>totalTeams := Some 3\<rparr>))
     [GetNextMatch, RecordResult draw, GetNextMatch, RecordResult draw, GetNextMatch,
      RecordResult draw] = [Some 1, Some 2]"
proof -
  let ?p0 = "initialHome\<lparr>totalTeams := Some 3\<rparr>"
  let ?es = "[GetNextMatch, RecordResult draw, GetNextMatch, RecordResult draw, GetNextMatch,
              RecordResult draw]"
  have h: "(3::int) \<le> teamsOr3 (totalTeams ?p0)" "teamsOr3 (totalTeams ?p0) \<le> 20"
    by (simp_all add: initialHome_def teamsOr3_def)
  have ab: "(1::int) < 2" by simp
  have k: "2 = drawCount 1 2 (startNewGame ?p0) ?es"
    by (simp add: page_defs playingPair_def)
  from first_to_play_alternates [OF h ab k]
  have "drawFirsts 1 2 (startNewGame ?p0) ?es = map (\<lambda>i. Some (if even i then 1 else 2)) [0..<2]"
    by blast
  also have "\<dots> = [Some 1, Some 2]"
    by (simp add: upt_rec)
  finally show ?thesis using h k by simp
qed

lemma run_example_3_drawn:
  "run (startNewGame (initialHome\<lparr>totalTeams := Some 3\<rparr>))
     [GetNextMatch, RecordResult draw, GetNextMatch, RecordResult draw, GetNextMatch,
      RecordResult draw] =
   \<lparr>totalTeams = Some 3,
    gameState = Some \<lparr>total_teams = 3, current_match = None,
                       waiting_queue = [3, 2, 1],
                       match_history = [\<lparr>team1 = 1, team2 = 2, match_number = 1,
                                          result = Some draw\<rparr>,
                                        \<lparr>team1 = 3, team2 = 1, match_number = 2,
                                          result = Some draw\<rparr>,
                                        \<lparr>team1 = 2, team2 = 1, match_number = 3,
                                          result = Some draw\<rparr>],
                       match_counter = 3,
                       draw_trackers = [\<lparr>team1 = 1, team2 = 2, nextToPlay = 1\<rparr>,
                                        \<lparr>team1 = 1, team2 = 3, nextToPlay = 3\<rparr>]\<rparr>,
    error = None\<rparr>"
  by (simp add: page_defs)

text \<open>
  The trackers of that session. The second match, 3 against 1, is stored as the pair
  of 1 and 3. The third match, 2 against 1, is a second draw of the pair of 1 and 2:
  it adds no tracker and turns the \<open>nextToPlay\<close> of the first tracker from 2 to 1,
  the tracker of 1 and 3 staying as it is.
\<close>

theorem trackers_canonical_and_kept_witness:
  "(3::int) \<le> teamsOr3 (totalTeams (initialHome\<lparr>totalTeams := Some 3\<rparr>)) \<and>
   teamsOr3 (totalTeams (initialHome\<lparr>totalTeams := Some 3\<rparr>)) \<le> 20 \<and>
   map_option draw_trackers (gameState (run (startNewGame (initialHome\<lparr>totalTeams := Some 3\<rparr>))
     [GetNextMatch, RecordResult draw, GetNextMatch, RecordResult draw, GetNextMatch])) =
     Some [\<lparr>team1 = 1, team2 = 2, nextToPlay = 2\<rparr>,
           \<lparr>team1 = 1, team2 = 3, nextToPlay = 3\<rparr>] \<and>
   map_option draw_trackers (gameState (step
     (run (startNewGame (initialHome\<lparr>totalTeams := Some 3\<rparr>))
        [GetNextMatch, RecordResult draw, GetNextMatch, RecordResult draw, GetNextMatch])
     (RecordResult draw))) =
     Some ([\<lparr>team1 = 1, team2 = 2, nextToPlay = 2\<rparr>,
            \<lparr>team1 = 1, team2 = 3, nextToPlay = 3\<rparr>]
           [0 := \<lparr>team1 = 1, team2 = 2, nextToPlay = 1\<rparr>]) \<and>
   distinct (map (\<lambda>t. {team1 t, team2 t})
     [\<lparr>team1 = 1, team2 = 2, nextToPlay = 1::int\<rparr>,
      \<lparr>team1 = 1, team2 = 3, nextToPlay = 3\<rparr>]) \<and>
   length (filter (forPair 2 1)
     [\<lparr>team1 = 1, team2 = 2, nextToPlay = 1\<rparr>,
      \<lparr>team1 = 1, team2 = 3, nextToPlay = 3\<rparr>]) \<le> 1"
proof -
  let ?p0 = "initialHome\<lparr>totalTeams := Some 3\<rparr>"
  let ?es5 = "[GetNextMatch, RecordResult draw, GetNextMatch, RecordResult draw, GetNextMatch]"
  let ?es6 = "[GetNextMatch, RecordResult draw, GetNextMatch, RecordResult draw, GetNextMatch,
               RecordResult draw]"
  let ?ts5 = "[\<lparr>team1 = 1, team2 = 2, nextToPlay = 2\<rparr>,
               \<lparr>team1 = 1, team2 = 3, nextToPlay = 3\<rparr>]"
  let ?ts6 = "[\<lparr>team1 = 1, team2 = 2, nextToPlay = 1\<rparr>,
               \<lparr>team1 = 1, team2 = 3, nextToPlay = 3\<rparr>]"
  have h: "(3::int) \<le> teamsOr3 (totalTeams ?p0)" "teamsOr3 (totalTeams ?p0) \<le> 20"
    by (simp_all add: initialHome_def teamsOr3_def)
  have t5: "map_option draw_trackers (gameState (run (startNewGame ?p0) ?es5)) = Some ?ts5"
    unfolding run_example_3 by simp
  have t6: "map_option draw_trackers (gameState (run (startNewGame ?p0) ?es6)) = Some ?ts6"
    unfolding run_example_3_drawn by simp
  have next6: "step (run (startNewGame ?p0) ?es5) (RecordResult draw) =
      run (startNewGame ?p0) ?es6"
    using run_append [of "startNewGame ?p0" ?es5 "[RecordResult draw]"] by simp
  from trackers_canonical_and_kept [OF h refl, of ?es6]
  obtain g6 where g6: "gameState (run (startNewGame ?p0) ?es6) = Some g6"
    and d6: "distinct (map (\<lambda>t. {team1 t, team2 t}) (draw_trackers g6))"
    and f6: "\<forall>a b. length (filter (forPair a b) (draw_trackers g6)) \<le> 1"
    by blast
  have ts6: "draw_trackers g6 = ?ts6"
    using t6 unfolding g6 by simp
  from d6 have d: "distinct (map (\<lambda>t. {team1 t, team2 t}) ?ts6)"
    unfolding ts6 .
  from f6 have one: "length (filter (forPair 2 1) ?ts6) \<le> 1"
    unfolding ts6 by blast
  from trackers_canonical_and_kept [OF h refl, of ?es5]
  obtain g g' where g: "gameState (run (startNewGame ?p0) ?es5) = Some g"
    and g': "gameState (step (run (startNewGame ?p0) ?es5) (RecordResult draw)) = Some g'"
    by blast
  from g' t6 have "map_option draw_trackers
      (gameState (step (run (startNewGame ?p0) ?es5) (RecordResult draw))) = Some (?ts5[0 := \<lparr>team1 = 1, team2 = 2, nextToPlay = 1\<rparr>])"
    unfolding next6 by simp
  with h t5 d one show ?thesis by simp
qed

end
